theory Spec2Isabelle
  imports Main "HOL-Library.AList"
begin

section \<open>Python values\<close>

text \<open>
  The program is dynamically typed: \<open>add_item\<close> and \<open>remove_item\<close> inspect the
  run-time type of their arguments, and \<open>load_data\<close> returns whatever the JSON decoder
  produced. Values are therefore embedded as one datatype.

  A Python \<open>str\<close> is a sequence of code points, so it is a list of naturals
  (\<open>map of_char ''abc''\<close> for a literal). A \<open>dict\<close> is an association list in
  insertion order: \<open>AList.update\<close> overwrites in place or appends at the end, as
  assignment to a \<open>dict\<close> does. Dictionaries are keyed by \<open>str\<close>, which is what the
  decoder yields and what \<open>add_item\<close> creates.

  Floating-point arithmetic is outside the embedding. A float is carried as the literal
  it was read from, and an operation that would have to compute with one has the outcome
  \<open>NotModelled\<close>: the model does not say whether the program returns or raises there.
  The same outcome stands for the comparison of two lists and for the text of a list or
  of a dictionary in a message.

  Two limits of the interpreter are part of the model, because they depend on the data:
  the limit on the decimal digits of an \<open>int\<close> that is converted to or from text, and
  the limit on the nesting of JSON values. That the interpreter's stack suffices for the
  program's own calls is assumed throughout.
\<close>

type_synonym pystr = "nat list"

datatype pyval =
    PNone
  | PBool bool
  | PInt int
  | PFloat pystr
  | PStr pystr
  | PList "pyval list"
  | PDict "(pystr \<times> pyval) list"

type_synonym dict = "(pystr \<times> pyval) list"

text \<open>
  The exceptions. \<open>FileNotFoundError\<close>, \<open>NotADirectoryError\<close>, \<open>IsADirectoryError\<close> and
  \<open>PermissionError\<close> are subclasses of \<open>OSError\<close>, which stands here for every other
  error of the operating system. \<open>ValueError\<close> stands for the plain exception of that
  class: \<open>except json.JSONDecodeError\<close> does not catch it.
\<close>

datatype exn =
    KeyError
  | TypeError
  | ValueError
  | RecursionError
  | FileNotFoundError
  | NotADirectoryError
  | IsADirectoryError
  | PermissionError
  | OSError
  | UnicodeDecodeError
  | UnicodeEncodeError
  | JSONDecodeError
  | NotModelled

text \<open>\<open>isinstance(v, int)\<close>: \<open>bool\<close> is a subclass of \<open>int\<close>.\<close>

fun isinstance_int :: "pyval \<Rightarrow> bool" where
  "isinstance_int (PInt n) = True"
| "isinstance_int (PBool b) = True"
| "isinstance_int v = False"

text \<open>The integer an \<open>int\<close> instance stands for: \<open>True\<close> is 1 and \<open>False\<close> is 0.\<close>

fun int_value :: "pyval \<Rightarrow> int" where
  "int_value (PInt n) = n"
| "int_value (PBool b) = (if b then 1 else 0)"
| "int_value v = 0"

fun is_float :: "pyval \<Rightarrow> bool" where
  "is_float (PFloat x) = True"
| "is_float v = False"

text \<open>
  \<open>a + b\<close> and \<open>a - b\<close> where \<open>b\<close> is an \<open>int\<close> instance (the only way the program uses
  them): an \<open>int\<close> or \<open>bool\<close> on the left gives an \<open>int\<close>; \<open>None\<close>, \<open>str\<close>, \<open>list\<close> and
  \<open>dict\<close> on the left raise \<open>TypeError\<close>.
\<close>

definition py_add :: "pyval \<Rightarrow> pyval \<Rightarrow> exn + pyval" where
  "py_add a b =
     (if isinstance_int a \<and> isinstance_int b then Inr (PInt (int_value a + int_value b))
      else if is_float a \<and> isinstance_int b then Inl NotModelled
      else if isinstance_int b then Inl TypeError
      else Inl NotModelled)"

definition py_sub :: "pyval \<Rightarrow> pyval \<Rightarrow> exn + pyval" where
  "py_sub a b =
     (if isinstance_int a \<and> isinstance_int b then Inr (PInt (int_value a - int_value b))
      else if is_float a \<and> isinstance_int b then Inl NotModelled
      else if isinstance_int b then Inl TypeError
      else Inl NotModelled)"

text \<open>Lexicographic order of two \<open>str\<close> by code point, for \<open>a < b\<close> and \<open>a <= b\<close>.\<close>

fun str_lt :: "pystr \<Rightarrow> pystr \<Rightarrow> bool" where
  "str_lt [] [] = False"
| "str_lt [] (y # ys) = True"
| "str_lt (x # xs) [] = False"
| "str_lt (x # xs) (y # ys) = (x < y \<or> (x = y \<and> str_lt xs ys))"

text \<open>
  \<open>a < b\<close> and \<open>a <= b\<close>. Numbers compare by value, two \<open>str\<close> lexicographically; a
  comparison across these kinds, or one with \<open>None\<close> or a \<open>dict\<close>, raises \<open>TypeError\<close>.
  Comparisons with a float and between two lists are not modelled.
\<close>

fun py_lt :: "pyval \<Rightarrow> pyval \<Rightarrow> exn + bool" where
  "py_lt (PStr a) (PStr b) = Inr (str_lt a b)"
| "py_lt (PList a) (PList b) = Inl NotModelled"
| "py_lt a b =
     (if isinstance_int a \<and> isinstance_int b then Inr (int_value a < int_value b)
      else if (isinstance_int a \<or> is_float a) \<and> (isinstance_int b \<or> is_float b)
        then Inl NotModelled
      else Inl TypeError)"

fun py_le :: "pyval \<Rightarrow> pyval \<Rightarrow> exn + bool" where
  "py_le (PStr a) (PStr b) = Inr (\<not> str_lt b a)"
| "py_le (PList a) (PList b) = Inl NotModelled"
| "py_le a b =
     (if isinstance_int a \<and> isinstance_int b then Inr (int_value a \<le> int_value b)
      else if (isinstance_int a \<or> is_float a) \<and> (isinstance_int b \<or> is_float b)
        then Inl NotModelled
      else Inl TypeError)"

section \<open>Rendering integers\<close>

text \<open>
  \<open>str(n)\<close> of an \<open>int\<close>, which is also how an f-string and the JSON encoder write it:
  the decimal digits, most significant first, after a minus sign for a negative number.
\<close>

fun dec_digits :: "nat \<Rightarrow> pystr" where
  "dec_digits n = (if n < 10 then [48 + n] else dec_digits (n div 10) @ [48 + n mod 10])"

declare dec_digits.simps [simp del]

definition str_int :: "int \<Rightarrow> pystr" where
  "str_int n = (if n < 0 then 45 # dec_digits (nat (- n)) else dec_digits (nat n))"

text \<open>
  CPython refuses to convert an \<open>int\<close> of more than 4300 decimal digits to text, and a
  text of more than 4300 digits to an \<open>int\<close>: the conversion raises \<open>ValueError\<close>. 4300
  is the default of \<open>sys.set_int_max_str_digits\<close>, which the program does not change.
\<close>

definition int_max_str_digits :: nat where
  "int_max_str_digits = 4300"

definition too_long :: "int \<Rightarrow> bool" where
  "too_long n = (int_max_str_digits < length (dec_digits (nat \<bar>n\<bar>)))"

definition repr_int :: "int \<Rightarrow> exn + pystr" where
  "repr_int n = (if too_long n then Inl ValueError else Inr (str_int n))"

text \<open>
  What \<open>f"{v}"\<close> raises, if anything: an \<open>int\<close> beyond the digit limit raises
  \<open>ValueError\<close>; \<open>None\<close>, a \<open>bool\<close>, a float and a \<open>str\<close> always have a text. The text of
  a list or of a dictionary is not modelled.
\<close>

fun format_failure :: "pyval \<Rightarrow> exn option" where
  "format_failure (PInt n) = (if too_long n then Some ValueError else None)"
| "format_failure (PList xs) = Some NotModelled"
| "format_failure (PDict kvs) = Some NotModelled"
| "format_failure v = None"

text \<open>
  \<open>f"{qty}"\<close> for a quantity that passed validation and has a text: an \<open>int\<close> prints in
  decimal, a \<open>bool\<close> prints as \<open>True\<close> or \<open>False\<close>.
\<close>

fun format_qty :: "pyval \<Rightarrow> pystr" where
  "format_qty (PBool b) = (if b then map of_char ''True'' else map of_char ''False'')"
| "format_qty v = str_int (int_value v)"

section \<open>The inventory operations\<close>

text \<open>
  What the functions print on \<open>sys.stderr\<close>. The text of a message is fixed by its kind
  and the values interpolated into it, so a message is recorded as that; building the
  text can fail, as \<open>format_failure\<close> says:
  \<^item> \<open>InvalidItemName item\<close>:
    \<open>Error: Item name '{item}' is invalid. Must be a non-empty string.\<close>
  \<^item> \<open>InvalidQuantity qty item\<close>:
    \<open>Error: Quantity '{qty}' for item '{item}' is invalid. Must be a positive integer.\<close>
  \<^item> \<open>FileNotFoundInfo file\<close>:
    \<open>Info: '{file}' not found. Starting with empty inventory.\<close>
  \<^item> \<open>DecodeFailure file\<close>:
    \<open>Error: Could not decode JSON from '{file}'. Starting with empty inventory.\<close>
  \<^item> \<open>SaveFailure file e\<close>:
    \<open>Error: Could not save data to '{file}': {e}\<close>
\<close>

datatype diagnostic =
    InvalidItemName pyval
  | InvalidQuantity pyval pyval
  | FileNotFoundInfo pystr
  | DecodeFailure pystr
  | SaveFailure pystr exn

datatype level = Info | Error

fun severity :: "diagnostic \<Rightarrow> level" where
  "severity (FileNotFoundInfo f) = Info"
| "severity d = Error"

text \<open>
  \<open>not isinstance(item, str) or not item\<close>. The \<open>or\<close> short-circuits, so the truth value
  is only taken of a \<open>str\<close>, and a \<open>str\<close> is false exactly when it is empty.
\<close>

fun bad_item :: "pyval \<Rightarrow> bool" where
  "bad_item (PStr s) = (s = [])"
| "bad_item v = True"

text \<open>\<open>not isinstance(qty, int) or qty <= 0\<close>, the comparison only on an \<open>int\<close> instance.\<close>

definition bad_qty :: "pyval \<Rightarrow> bool" where
  "bad_qty qty = (\<not> isinstance_int qty \<or> int_value qty \<le> 0)"

fun str_of :: "pyval \<Rightarrow> pystr" where
  "str_of (PStr s) = s"
| "str_of v = []"

text \<open>\<open>d.get(k, default)\<close> and \<open>d[k]\<close> for a \<open>str\<close> key.\<close>

definition dict_get :: "dict \<Rightarrow> pystr \<Rightarrow> pyval \<Rightarrow> pyval" where
  "dict_get d k dflt = (case map_of d k of None \<Rightarrow> dflt | Some v \<Rightarrow> v)"

definition dict_getitem :: "dict \<Rightarrow> pystr \<Rightarrow> exn + pyval" where
  "dict_getitem d k = (case map_of d k of None \<Rightarrow> Inl KeyError | Some v \<Rightarrow> Inr v)"

text \<open>
  \<open>add_item(stock_data, item, qty, logs)\<close>. The dictionary, the log list and the error
  stream are mutated in place by the source; here they are passed in and returned. When
  the call raises, the result is the exception together with the dictionary as the call
  leaves it; the log list and the error stream are then as they were. \<open>now\<close> is the text
  of \<open>datetime.now()\<close> at the call. \<open>logs\<close> is \<open>None\<close> when the caller supplied no list:
  the entry then goes to a fresh list that nobody else sees.

  The message about the item name formats the item; the message about the quantity
  formats the quantity and the item, which is a \<open>str\<close> at that point. On valid input line
  41 stores the sum before line 43 formats the log entry.
\<close>

definition log_entry :: "pystr \<Rightarrow> pyval \<Rightarrow> pyval \<Rightarrow> pystr" where
  "log_entry now qty item =
     now @ map of_char '': Added '' @ format_qty qty @ map of_char '' of '' @ str_of item"

definition add_item ::
  "pystr \<Rightarrow> dict \<Rightarrow> pyval \<Rightarrow> pyval \<Rightarrow> pystr list option \<Rightarrow> diagnostic list
     \<Rightarrow> (exn \<times> dict) + (dict \<times> pystr list option \<times> diagnostic list)" where
  "add_item now stock_data item qty logs stderr =
     (let logs_local = (case logs of None \<Rightarrow> [] | Some l \<Rightarrow> l) in
      if bad_item item then
        (case format_failure item of
           Some e \<Rightarrow> Inl (e, stock_data)
         | None \<Rightarrow> Inr (stock_data, logs, stderr @ [InvalidItemName item]))
      else if bad_qty qty then
        (case format_failure qty of
           Some e \<Rightarrow> Inl (e, stock_data)
         | None \<Rightarrow> Inr (stock_data, logs, stderr @ [InvalidQuantity qty item]))
      else
        (case py_add (dict_get stock_data (str_of item) (PInt 0)) qty of
           Inl e \<Rightarrow> Inl (e, stock_data)
         | Inr v \<Rightarrow>
             (let stock1 = AList.update (str_of item) v stock_data in
              case format_failure qty of
                Some e \<Rightarrow> Inl (e, stock1)
              | None \<Rightarrow>
                  Inr (stock1,
                       map_option (\<lambda>l. logs_local @ [log_entry now qty item]) logs,
                       stderr))))"

text \<open>
  The \<open>try\<close> block of \<open>remove_item\<close>: the dictionary is mutated as the block runs, so a
  raise carries the dictionary as it stands at that point.
\<close>

definition remove_body :: "dict \<Rightarrow> pystr \<Rightarrow> pyval \<Rightarrow> (exn \<times> dict) + dict" where
  "remove_body stock_data k qty =
     (case dict_getitem stock_data k of
        Inl e \<Rightarrow> Inl (e, stock_data)
      | Inr v \<Rightarrow>
          (case py_sub v qty of
             Inl e \<Rightarrow> Inl (e, stock_data)
           | Inr v' \<Rightarrow>
               (let stock1 = AList.update k v' stock_data in
                case dict_getitem stock1 k of
                  Inl e \<Rightarrow> Inl (e, stock1)
                | Inr w \<Rightarrow>
                    (case py_le w (PInt 0) of
                       Inl e \<Rightarrow> Inl (e, stock1)
                     | Inr b \<Rightarrow> Inr (if b then AList.delete k stock1 else stock1)))))"

text \<open>
  \<open>remove_item(stock_data, item, qty)\<close>, with the same validation and the same messages
  as \<open>add_item\<close>. The handler swallows a \<open>KeyError\<close>; any other exception leaves the
  function, with the dictionary as it stands.
\<close>

definition remove_item ::
  "dict \<Rightarrow> pyval \<Rightarrow> pyval \<Rightarrow> diagnostic list
     \<Rightarrow> (exn \<times> dict) + (dict \<times> diagnostic list)" where
  "remove_item stock_data item qty stderr =
     (if bad_item item then
        (case format_failure item of
           Some e \<Rightarrow> Inl (e, stock_data)
         | None \<Rightarrow> Inr (stock_data, stderr @ [InvalidItemName item]))
      else if bad_qty qty then
        (case format_failure qty of
           Some e \<Rightarrow> Inl (e, stock_data)
         | None \<Rightarrow> Inr (stock_data, stderr @ [InvalidQuantity qty item]))
      else
        (case remove_body stock_data (str_of item) qty of
           Inl (e, stock1) \<Rightarrow> (if e = KeyError then Inr (stock1, stderr) else Inl (e, stock1))
         | Inr stock1 \<Rightarrow> Inr (stock1, stderr)))"

text \<open>
  \<open>get_qty\<close> is \<open>stock_data.get(item, 0)\<close>. A \<open>list\<close> or \<open>dict\<close> is unhashable and makes
  the lookup raise; any other value that is not a \<open>str\<close> equals no key.
\<close>

fun get_qty :: "dict \<Rightarrow> pyval \<Rightarrow> exn + pyval" where
  "get_qty stock_data (PStr s) = Inr (dict_get stock_data s (PInt 0))"
| "get_qty stock_data (PList xs) = Inl TypeError"
| "get_qty stock_data (PDict kvs) = Inl TypeError"
| "get_qty stock_data v = Inr (PInt 0)"

text \<open>
  \<open>check_low_items\<close>: the comprehension walks the items in insertion order and keeps
  the name where \<open>qty < threshold\<close>; a comparison that raises ends the whole call.
\<close>

fun check_low_items :: "dict \<Rightarrow> pyval \<Rightarrow> exn + pystr list" where
  "check_low_items [] threshold = Inr []"
| "check_low_items ((item, qty) # rest) threshold =
     (case py_lt qty threshold of
        Inl e \<Rightarrow> Inl e
      | Inr low \<Rightarrow>
          (case check_low_items rest threshold of
             Inl e \<Rightarrow> Inl e
           | Inr names \<Rightarrow> Inr (if low then item # names else names)))"

section \<open>The JSON encoder\<close>

text \<open>
  \<open>json.dump(stock_data, f, indent=4)\<close> writes to the file, piece by piece, the text that
  the \<open>json\<close> module's encoder produces with its default settings and an indent of four
  spaces: \<open>ensure_ascii\<close> is on, the item separator is a comma and the key separator is
  a colon and a space.

  A string is written between double quotes. The quote, the backslash and the control
  characters with a short form are escaped as such; the other characters from space to
  tilde stand for themselves; every other code point below \<open>0x10000\<close>, a surrogate
  included, becomes \<open>\uXXXX\<close> with four lower-case hexadecimal digits, and a code point
  from \<open>0x10000\<close> on becomes the two escapes of its surrogate pair.
\<close>

definition hex_digit :: "nat \<Rightarrow> nat" where
  "hex_digit d = (if d < 10 then 48 + d else 87 + d)"

definition hex4 :: "nat \<Rightarrow> pystr" where
  "hex4 n = [hex_digit (n div 4096 mod 16), hex_digit (n div 256 mod 16),
             hex_digit (n div 16 mod 16), hex_digit (n mod 16)]"

definition escape_u :: "nat \<Rightarrow> pystr" where
  "escape_u n = 92 # 117 # hex4 n"

definition escape_char :: "nat \<Rightarrow> pystr" where
  "escape_char c =
     (if c = 34 then [92, 34]
      else if c = 92 then [92, 92]
      else if c = 10 then [92, 110]
      else if c = 13 then [92, 114]
      else if c = 9 then [92, 116]
      else if c = 12 then [92, 102]
      else if c = 8 then [92, 98]
      else if 32 \<le> c \<and> c \<le> 126 then [c]
      else if c < 65536 then escape_u c
      else escape_u (55296 + (c - 65536) div 1024 mod 1024) @
           escape_u (56320 + (c - 65536) mod 1024))"

definition encode_basestring_ascii :: "pystr \<Rightarrow> pystr" where
  "encode_basestring_ascii s = 34 # concat (map escape_char s) @ [34]"

text \<open>A newline and the indentation of a nesting level.\<close>

definition newline_indent :: "nat \<Rightarrow> pystr" where
  "newline_indent level = 10 # replicate (4 * level) 32"

text \<open>
  The encoder is a generator, and \<open>json.dump\<close> writes each piece as it comes. When the
  encoder raises, the pieces before that point have been written. An \<open>outcome\<close> is the
  text produced so far together with the exception that ended it, if any.
\<close>

type_synonym outcome = "pystr \<times> exn option"

definition emit :: "pystr \<Rightarrow> outcome" where
  "emit s = (s, None)"

definition fails :: "exn \<Rightarrow> outcome" where
  "fails e = ([], Some e)"

definition and_then :: "outcome \<Rightarrow> outcome \<Rightarrow> outcome" where
  "and_then a b = (case snd a of Some e \<Rightarrow> a | None \<Rightarrow> (fst a @ fst b, snd b))"

text \<open>\<open>isinstance(value, (list, tuple, dict))\<close>: the values that the encoder descends into.\<close>

fun container :: "pyval \<Rightarrow> bool" where
  "container (PList xs) = True"
| "container (PDict kvs) = True"
| "container v = False"

text \<open>
  An item of a list, after the piece \<open>buf\<close> that opens the list or separates the item
  from the one before. A list or dictionary is written after \<open>buf\<close>; any other value is
  joined to \<open>buf\<close> before the two are written as one piece, so that nothing is written
  when its text cannot be made. \<open>out\<close> is the outcome of the item alone.
\<close>

definition list_item :: "pystr \<Rightarrow> pyval \<Rightarrow> outcome \<Rightarrow> outcome" where
  "list_item buf x out =
     (if container x then and_then (emit buf) out
      else (case snd out of None \<Rightarrow> emit (buf @ fst out) | Some e \<Rightarrow> fails e))"

fun list_items :: "pystr \<Rightarrow> pystr \<Rightarrow> (pyval \<times> outcome) list \<Rightarrow> outcome" where
  "list_items buf separator [] = emit []"
| "list_items buf separator ((x, out) # rest) =
     and_then (list_item buf x out) (list_items separator separator rest)"

text \<open>
  The items of a dictionary: the separator unless the item is the first, the key, the
  key separator, and then the value, each a piece of its own.
\<close>

fun dict_items :: "bool \<Rightarrow> pystr \<Rightarrow> (pystr \<times> outcome) list \<Rightarrow> outcome" where
  "dict_items first item_separator [] = emit []"
| "dict_items first item_separator ((key, out) # rest) =
     and_then (emit (if first then [] else item_separator))
       (and_then (emit (encode_basestring_ascii key))
          (and_then (emit [58, 32])
             (and_then out (dict_items False item_separator rest))))"

text \<open>
  The encoder proper. An empty list or dictionary is written as \<open>[]\<close> or \<open>{}\<close>; a
  non-empty one puts each item on a line of its own, indented one level deeper, and
  the closing bracket on a line at the level of the container. An \<open>int\<close> beyond the
  digit limit raises \<open>ValueError\<close>. The text of a float is not modelled.

  Each list or dictionary inside another one is written by a generator of its own, one
  level further down the interpreter's stack. \<open>room\<close> is the number of levels below the
  outermost value that the stack has room for: resuming a generator beyond it raises
  \<open>RecursionError\<close> before the generator has written anything.
\<close>

fun iterencode :: "nat \<Rightarrow> nat \<Rightarrow> pyval \<Rightarrow> outcome" where
  "iterencode room level (PStr s) = emit (encode_basestring_ascii s)"
| "iterencode room level PNone = emit (map of_char ''null'')"
| "iterencode room level (PBool b) =
     emit (if b then map of_char ''true'' else map of_char ''false'')"
| "iterencode room level (PInt n) =
     (case repr_int n of Inl e \<Rightarrow> fails e | Inr s \<Rightarrow> emit s)"
| "iterencode room level (PFloat x) = fails NotModelled"
| "iterencode room level (PList xs) =
     (if room < level then fails RecursionError
      else if xs = [] then emit (map of_char ''[]'')
      else
        and_then
          (list_items ([91] @ newline_indent (Suc level)) (44 # newline_indent (Suc level))
             (map (\<lambda>x. (x, iterencode room (Suc level) x)) xs))
          (and_then (emit (newline_indent level)) (emit [93])))"
| "iterencode room level (PDict kvs) =
     (if room < level then fails RecursionError
      else if kvs = [] then emit (map of_char ''{}'')
      else
        and_then (emit [123])
          (and_then (emit (newline_indent (Suc level)))
             (and_then
                (dict_items True (44 # newline_indent (Suc level))
                   (map (\<lambda>kv. (fst kv, iterencode room (Suc level) (snd kv))) kvs))
                (and_then (emit (newline_indent level)) (emit [125])))))"

definition json_dumps :: "nat \<Rightarrow> pyval \<Rightarrow> outcome" where
  "json_dumps room v = iterencode room 0 v"

section \<open>The JSON decoder\<close>

text \<open>
  \<open>json.load(f)\<close> reads the whole text and decodes it with the module's default decoder.
  The decoder is modelled in two passes that together accept and reject what the
  module's scanner does in one: \<open>lex\<close> splits the text into tokens, skipping the white
  space (space, tab, line feed, carriage return) between them, and \<open>parse_value\<close> builds
  the value from the tokens. Like the module, the decoder accepts \<open>NaN\<close>, \<open>Infinity\<close>
  and \<open>-Infinity\<close>.

  The scanner raises at the first place, in reading order, where it cannot go on. So
  \<open>lex\<close> ends the tokens with \<open>Bad e\<close> where no token can be read, \<open>e\<close> being what the
  scanner raises when it tries to read a value there, and the parser raises \<open>e\<close> when it
  needs a value at that token. Where the parser needs a delimiter or a key instead, the
  scanner does not try to read a value, and every token but the right one is a
  \<open>JSONDecodeError\<close>.
\<close>

datatype token =
  LBrace | RBrace | LBracket | RBracket | Colon | Comma | Scalar pyval | Bad exn

definition hex_value :: "nat \<Rightarrow> nat option" where
  "hex_value c =
     (if 48 \<le> c \<and> c \<le> 57 then Some (c - 48)
      else if 97 \<le> c \<and> c \<le> 102 then Some (c - 87)
      else if 65 \<le> c \<and> c \<le> 70 then Some (c - 55)
      else None)"

text \<open>The number that the four characters after \<open>\u\<close> denote.\<close>

fun hex4_value :: "pystr \<Rightarrow> nat option" where
  "hex4_value [a, b, c, d] =
     (case (hex_value a, hex_value b, hex_value c, hex_value d) of
        (Some x, Some y, Some z, Some w) \<Rightarrow> Some (4096 * x + 256 * y + 16 * z + w)
      | _ \<Rightarrow> None)"
| "hex4_value cs = None"

text \<open>The character that a one-letter escape stands for.\<close>

definition unescape :: "nat \<Rightarrow> nat option" where
  "unescape e =
     (if e = 34 then Some 34
      else if e = 92 then Some 92
      else if e = 47 then Some 47
      else if e = 98 then Some 8
      else if e = 102 then Some 12
      else if e = 110 then Some 10
      else if e = 114 then Some 13
      else if e = 116 then Some 9
      else None)"

definition prepend :: "nat \<Rightarrow> exn + (pystr \<times> pystr) \<Rightarrow> exn + (pystr \<times> pystr)" where
  "prepend c r = (case r of Inl e \<Rightarrow> Inl e | Inr (s, rest) \<Rightarrow> Inr (c # s, rest))"

text \<open>
  \<open>scanstring\<close> reads a string literal from just after its opening quote and returns
  the string and the text after the closing quote. A raw control character is refused.
  \<open>\uXXXX\<close> with a high surrogate, followed at once by \<open>\uXXXX\<close> with a low surrogate,
  is read as the one code point of that pair; any other surrogate is read as it is.
\<close>

fun scanstring :: "pystr \<Rightarrow> exn + (pystr \<times> pystr)" where
  "scanstring [] = Inl JSONDecodeError"
| "scanstring (c # cs) =
     (if c = 34 then Inr ([], cs)
      else if c = 92 then
        (case cs of
           [] \<Rightarrow> Inl JSONDecodeError
         | e # cs' \<Rightarrow>
             if e = 117 then
               (case hex4_value (take 4 cs') of
                  None \<Rightarrow> Inl JSONDecodeError
                | Some u \<Rightarrow>
                    if 55296 \<le> u \<and> u \<le> 56319 \<and> take 2 (drop 4 cs') = [92, 117] then
                      (case hex4_value (take 4 (drop 6 cs')) of
                         None \<Rightarrow> Inl JSONDecodeError
                       | Some u2 \<Rightarrow>
                           if 56320 \<le> u2 \<and> u2 \<le> 57343
                           then prepend (65536 + ((u - 55296) * 1024 + (u2 - 56320)))
                                  (scanstring (drop 10 cs'))
                           else prepend u (scanstring (drop 4 cs')))
                    else prepend u (scanstring (drop 4 cs')))
             else
               (case unescape e of
                  None \<Rightarrow> Inl JSONDecodeError
                | Some ch \<Rightarrow> prepend ch (scanstring cs')))
      else if c < 32 then Inl JSONDecodeError
      else prepend c (scanstring cs))"

definition is_digit :: "nat \<Rightarrow> bool" where
  "is_digit c = (48 \<le> c \<and> c \<le> 57)"

definition digits_value :: "pystr \<Rightarrow> nat" where
  "digits_value ds = foldl (\<lambda>a d. 10 * a + (d - 48)) 0 ds"

text \<open>
  The parts of a number literal at the head of a text, each empty when it does not
  match: the integer part is \<open>0\<close> or a digit from 1 to 9 followed by digits, the
  fraction is a point followed by at least one digit, the exponent is \<open>e\<close> or \<open>E\<close>, an
  optional sign and at least one digit.
\<close>

fun int_part :: "pystr \<Rightarrow> pystr" where
  "int_part [] = []"
| "int_part (d # cs) =
     (if d = 48 then [48]
      else if 49 \<le> d \<and> d \<le> 57 then d # takeWhile is_digit cs
      else [])"

fun frac_part :: "pystr \<Rightarrow> pystr" where
  "frac_part [] = []"
| "frac_part (p # cs) =
     (if p = 46 \<and> takeWhile is_digit cs \<noteq> [] then p # takeWhile is_digit cs else [])"

fun exp_digits :: "pystr \<Rightarrow> pystr" where
  "exp_digits [] = []"
| "exp_digits (s # cs) =
     (if s = 43 \<or> s = 45
      then (if takeWhile is_digit cs \<noteq> [] then s # takeWhile is_digit cs else [])
      else takeWhile is_digit (s # cs))"

fun exp_part :: "pystr \<Rightarrow> pystr" where
  "exp_part [] = []"
| "exp_part (e # cs) =
     (if (e = 101 \<or> e = 69) \<and> exp_digits cs \<noteq> [] then e # exp_digits cs else [])"

text \<open>
  \<open>match_number\<close> reads a number at the head of a text. Without fraction and exponent
  it is an \<open>int\<close>, and the conversion of its digits raises \<open>ValueError\<close> when they are
  more than the digit limit allows; otherwise it is the float that its literal denotes.
\<close>

definition match_number :: "pystr \<Rightarrow> ((exn + pyval) \<times> pystr) option" where
  "match_number cs =
     (let sign = (if take 1 cs = [45] then [45] else []);
          cs1 = drop (length sign) cs;
          ip = int_part cs1;
          cs2 = drop (length ip) cs1;
          fp = frac_part cs2;
          cs3 = drop (length fp) cs2;
          ep = exp_part cs3;
          cs4 = drop (length ep) cs3
      in if ip = [] then None
         else if fp = [] \<and> ep = []
           then Some (if int_max_str_digits < length ip then Inl ValueError
                      else Inr (PInt (if sign = [] then int (digits_value ip)
                                      else - int (digits_value ip))), cs2)
         else Some (Inr (PFloat (sign @ ip @ fp @ ep)), cs4))"

definition starts_with :: "pystr \<Rightarrow> pystr \<Rightarrow> bool" where
  "starts_with cs p = (take (length p) cs = p)"

lemma prepend_Inr: "prepend c r = Inr (s, rest) \<longleftrightarrow> (\<exists>s'. r = Inr (s', rest) \<and> s = c # s')"
  by (auto simp: prepend_def split: sum.splits)

lemma scanstring_unfold:
  assumes "scanstring (c # cs) = Inr (s, rest)"
  shows "rest = cs \<or> (\<exists>n s'. scanstring (drop n cs) = Inr (s', rest))"
proof -
  have d0: "scanstring t = Inr (s', rest) \<Longrightarrow> \<exists>n s'. scanstring (drop n t) = Inr (s', rest)"
    for t s'
    by (metis drop0)
  have d1: "scanstring t = Inr (s', rest) \<Longrightarrow> \<exists>n s'. scanstring (drop n (e # t)) = Inr (s', rest)"
    for t s' e
    by (metis drop0 drop_Suc_Cons)
  have dk: "scanstring (drop k t) = Inr (s', rest) \<Longrightarrow>
      \<exists>n s'. scanstring (drop n (e # t)) = Inr (s', rest)"
    for t s' e k
    by (metis drop_Suc_Cons)
  from assms show ?thesis
    by (simp add: prepend_Inr split: if_splits list.splits option.splits)
       (use d0 d1 dk in blast)+
qed

lemma scanstring_rest: "scanstring cs = Inr (s, rest) \<Longrightarrow> length rest < Suc (length cs)"
proof (induction "length cs" arbitrary: cs s rest rule: less_induct)
  case less
  show ?case
  proof (cases cs)
    case Nil
    with less.prems show ?thesis by simp
  next
    case (Cons c cs')
    from scanstring_unfold[OF less.prems[unfolded Cons]]
    consider "rest = cs'" | n s' where "scanstring (drop n cs') = Inr (s', rest)"
      by blast
    then show ?thesis
    proof cases
      case 1
      then show ?thesis by (simp add: Cons)
    next
      case 2
      have "length (drop n cs') < length cs" by (simp add: Cons)
      from less.hyps[OF this 2] show ?thesis by (simp add: Cons)
    qed
  qed
qed

lemma match_number_rest:
  assumes "match_number cs = Some (v, rest)"
  shows "length rest < length cs"
proof -
  define cs1 where "cs1 = drop (length (if take 1 cs = [45] then [45] else [] :: pystr)) cs"
  have ip: "int_part cs1 \<noteq> []"
    using assms unfolding match_number_def Let_def cs1_def by (auto split: if_splits)
  then have ne: "cs1 \<noteq> []" by auto
  have short: "length (drop (length (int_part cs1)) cs1) < length cs1"
    using ip ne by (cases cs1) auto
  have le: "length cs1 \<le> length cs" by (simp add: cs1_def)
  have "length rest \<le> length (drop (length (int_part cs1)) cs1)"
    using assms unfolding match_number_def Let_def cs1_def by (auto split: if_splits)
  with short le show ?thesis by simp
qed

text \<open>
  \<open>lex\<close> follows the scanner's dispatch on the first character of a value: a quote
  opens a string, then come \<open>null\<close>, \<open>true\<close>, \<open>false\<close>, \<open>NaN\<close>, \<open>Infinity\<close> and
  \<open>-Infinity\<close>, and last a number. Anything else is refused.
\<close>

function lex :: "pystr \<Rightarrow> token list" where
  "lex [] = []"
| "lex (c # cs) =
     (if c = 32 \<or> c = 9 \<or> c = 10 \<or> c = 13 then lex cs
      else if c = 123 then LBrace # lex cs
      else if c = 125 then RBrace # lex cs
      else if c = 91 then LBracket # lex cs
      else if c = 93 then RBracket # lex cs
      else if c = 58 then Colon # lex cs
      else if c = 44 then Comma # lex cs
      else if c = 34 then
        (case scanstring cs of
           Inl e \<Rightarrow> [Bad e]
         | Inr (s, rest) \<Rightarrow> Scalar (PStr s) # lex rest)
      else if starts_with (c # cs) (map of_char ''null'')
        then Scalar PNone # lex (drop 3 cs)
      else if starts_with (c # cs) (map of_char ''true'')
        then Scalar (PBool True) # lex (drop 3 cs)
      else if starts_with (c # cs) (map of_char ''false'')
        then Scalar (PBool False) # lex (drop 4 cs)
      else if starts_with (c # cs) (map of_char ''NaN'')
        then Scalar (PFloat (map of_char ''NaN'')) # lex (drop 2 cs)
      else if starts_with (c # cs) (map of_char ''Infinity'')
        then Scalar (PFloat (map of_char ''Infinity'')) # lex (drop 7 cs)
      else if starts_with (c # cs) (map of_char ''-Infinity'')
        then Scalar (PFloat (map of_char ''-Infinity'')) # lex (drop 8 cs)
      else
        (case match_number (c # cs) of
           None \<Rightarrow> [Bad JSONDecodeError]
         | Some (Inl e, rest) \<Rightarrow> [Bad e]
         | Some (Inr v, rest) \<Rightarrow> Scalar v # lex rest))"
  by pat_completeness auto

termination
proof (relation "measure length")
  show "wf (measure length)" by simp
next
  fix c cs x s rest
  assume "scanstring cs = Inr x" and "(s, rest) = x"
  then have "scanstring cs = Inr (s, rest)" by simp
  from scanstring_rest[OF this] show "(rest, c # cs) \<in> measure length" by simp
next
  fix c :: nat and cs x r rest v
  assume "match_number (c # cs) = Some x" and "(r, rest) = x" and "r = Inr v"
  then have "match_number (c # cs) = Some (Inr v, rest)" by simp
  from match_number_rest[OF this] show "(rest, c # cs) \<in> measure length" by simp
qed simp_all

text \<open>
  The parser keeps the containers that are still open on a stack: for a list the
  items read so far, for a dictionary the pairs read so far and the key whose value is
  being read. A pair is entered with \<open>AList.update\<close>, so a repeated key keeps its first
  place and takes its last value, as in the \<open>dict\<close> that the module builds.

  The scanner calls itself for each list or dictionary inside another one. \<open>room\<close> is
  the number of levels below the outermost value that the stack has room for: opening
  a list or dictionary beyond it raises \<open>RecursionError\<close>.
\<close>

datatype frame = InList "pyval list" | InDict dict pystr

fun parse_value :: "nat \<Rightarrow> frame list \<Rightarrow> token list \<Rightarrow> exn + pyval"
  and parse_key :: "nat \<Rightarrow> dict \<Rightarrow> frame list \<Rightarrow> token list \<Rightarrow> exn + pyval"
  and after_value :: "nat \<Rightarrow> pyval \<Rightarrow> frame list \<Rightarrow> token list \<Rightarrow> exn + pyval" where
  "parse_value room st [] = Inl JSONDecodeError"
| "parse_value room st (t # ts) =
     (case t of
        Scalar v \<Rightarrow> after_value room v st ts
      | Bad e \<Rightarrow> Inl e
      | LBracket \<Rightarrow>
          if room < length st then Inl RecursionError
          else
            (case ts of
               RBracket # ts' \<Rightarrow> after_value room (PList []) st ts'
             | _ \<Rightarrow> parse_value room (InList [] # st) ts)
      | LBrace \<Rightarrow>
          if room < length st then Inl RecursionError
          else
            (case ts of
               RBrace # ts' \<Rightarrow> after_value room (PDict []) st ts'
             | _ \<Rightarrow> parse_key room [] st ts)
      | _ \<Rightarrow> Inl JSONDecodeError)"
| "parse_key room kvs st [] = Inl JSONDecodeError"
| "parse_key room kvs st (t # ts) =
     (case (t, ts) of
        (Scalar (PStr k), Colon # ts') \<Rightarrow> parse_value room (InDict kvs k # st) ts'
      | _ \<Rightarrow> Inl JSONDecodeError)"
| "after_value room v [] ts = (if ts = [] then Inr v else Inl JSONDecodeError)"
| "after_value room v (f # st) [] = Inl JSONDecodeError"
| "after_value room v (f # st) (t # ts) =
     (case (f, t) of
        (InList xs, Comma) \<Rightarrow> parse_value room (InList (xs @ [v]) # st) ts
      | (InList xs, RBracket) \<Rightarrow> after_value room (PList (xs @ [v])) st ts
      | (InDict kvs k, Comma) \<Rightarrow> parse_key room (AList.update k v kvs) st ts
      | (InDict kvs k, RBrace) \<Rightarrow> after_value room (PDict (AList.update k v kvs)) st ts
      | _ \<Rightarrow> Inl JSONDecodeError)"

text \<open>\<open>json.loads\<close>: a text that starts with a byte order mark is refused.\<close>

definition json_loads :: "nat \<Rightarrow> pystr \<Rightarrow> exn + pyval" where
  "json_loads room text =
     (if take 1 text = [65279] then Inl JSONDecodeError
      else parse_value room [] (lex text))"

section \<open>Files\<close>

text \<open>
  A file holds bytes. \<open>open(file, "r", encoding="utf-8")\<close> decodes them as UTF-8, strictly:
  a malformed sequence, an overlong form, an encoded surrogate and a value above
  \<open>0x10FFFF\<close> raise \<open>UnicodeDecodeError\<close>. \<open>open(file, "w", encoding="utf-8")\<close>
  encodes what is written to it; a surrogate code point cannot be encoded.
\<close>

definition continuation :: "char \<Rightarrow> bool" where
  "continuation b = (128 \<le> (of_char b :: nat) \<and> (of_char b :: nat) < 192)"

definition low6 :: "char \<Rightarrow> nat" where
  "low6 b = of_char b - 128"

fun utf8_decode :: "char list \<Rightarrow> pystr option" where
  "utf8_decode [] = Some []"
| "utf8_decode (b # bs) =
     (let x = (of_char b :: nat) in
      if x < 128 then map_option ((#) x) (utf8_decode bs)
      else if 194 \<le> x \<and> x < 224 then
        (case bs of
           b1 # bs' \<Rightarrow>
             if continuation b1
             then map_option ((#) (64 * (x - 192) + low6 b1)) (utf8_decode bs')
             else None
         | _ \<Rightarrow> None)
      else if 224 \<le> x \<and> x < 240 then
        (case bs of
           b1 # b2 # bs' \<Rightarrow>
             (let cp = 4096 * (x - 224) + 64 * low6 b1 + low6 b2 in
              if continuation b1 \<and> continuation b2 \<and> 2048 \<le> cp \<and>
                 \<not> (55296 \<le> cp \<and> cp \<le> 57343)
              then map_option ((#) cp) (utf8_decode bs')
              else None)
         | _ \<Rightarrow> None)
      else if 240 \<le> x \<and> x < 245 then
        (case bs of
           b1 # b2 # b3 # bs' \<Rightarrow>
             (let cp = 262144 * (x - 240) + 4096 * low6 b1 + 64 * low6 b2 + low6 b3 in
              if continuation b1 \<and> continuation b2 \<and> continuation b3 \<and>
                 65536 \<le> cp \<and> cp \<le> 1114111
              then map_option ((#) cp) (utf8_decode bs')
              else None)
         | _ \<Rightarrow> None)
      else None)"

definition utf8_encode_char :: "nat \<Rightarrow> char list option" where
  "utf8_encode_char c =
     (if c < 128 then Some [char_of c]
      else if c < 2048 then Some [char_of (192 + c div 64), char_of (128 + c mod 64)]
      else if 55296 \<le> c \<and> c \<le> 57343 then None
      else if c < 65536 then
        Some [char_of (224 + c div 4096), char_of (128 + c div 64 mod 64),
              char_of (128 + c mod 64)]
      else if c \<le> 1114111 then
        Some [char_of (240 + c div 262144), char_of (128 + c div 4096 mod 64),
              char_of (128 + c div 64 mod 64), char_of (128 + c mod 64)]
      else None)"

fun utf8_encode :: "pystr \<Rightarrow> char list option" where
  "utf8_encode [] = Some []"
| "utf8_encode (c # cs) =
     (case utf8_encode_char c of
        None \<Rightarrow> None
      | Some bs \<Rightarrow> map_option ((@) bs) (utf8_encode cs))"

text \<open>
  Reading in text mode turns \<open>\r\n\<close> and a lone \<open>\r\<close> into \<open>\n\<close>. Writing leaves
  \<open>\n\<close> as it is (the line separator of a POSIX system).
\<close>

fun universal_newlines :: "pystr \<Rightarrow> pystr" where
  "universal_newlines [] = []"
| "universal_newlines [c] = (if c = 13 then [10] else [c])"
| "universal_newlines (c # d # cs) =
     (if c = 13 \<and> d = 10 then 10 # universal_newlines cs
      else if c = 13 then 10 # universal_newlines (d # cs)
      else c # universal_newlines (d # cs))"

text \<open>
  The file system is that of a POSIX system, and file names are encoded as UTF-8 with
  the \<open>surrogateescape\<close> handler, as the interpreter does there by default. Before the
  operating system sees a name, \<open>open\<close> encodes it, which raises \<open>UnicodeEncodeError\<close>
  for a surrogate other than \<open>0xDC80\<close> to \<open>0xDCFF\<close>, and then refuses a NUL character
  with \<open>ValueError\<close>.
\<close>

definition unencodable :: "nat \<Rightarrow> bool" where
  "unencodable c = (55296 \<le> c \<and> c \<le> 57343 \<and> \<not> (56448 \<le> c \<and> c \<le> 56575))"

definition path_failure :: "pystr \<Rightarrow> exn option" where
  "path_failure file =
     (if filter unencodable file \<noteq> [] then Some UnicodeEncodeError
      else if 0 \<in> set file then Some ValueError
      else None)"

text \<open>
  The errors with which the operating system refuses a name that it cannot resolve,
  and the exceptions that they become: a component of the path is missing, a component
  that is not the last is not a directory, a directory on the way may not be searched,
  the name is too long, there are too many symbolic links.
\<close>

datatype resolve_error = ENOENT | ENOTDIR | EACCES | ENAMETOOLONG | ELOOP

fun os_error :: "resolve_error \<Rightarrow> exn" where
  "os_error ENOENT = FileNotFoundError"
| "os_error ENOTDIR = NotADirectoryError"
| "os_error EACCES = PermissionError"
| "os_error ENAMETOOLONG = OSError"
| "os_error ELOOP = OSError"

text \<open>
  What becomes of the bytes written to an open file: they are kept; they are discarded
  (a device such as \<open>/dev/null\<close>); or there is room for a number of bytes only (a full
  disk, a quota, a device such as \<open>/dev/full\<close>), and the write that exceeds it raises
  \<open>OSError\<close> after the bytes that fit have been kept.
\<close>

datatype write_effect = Keeps | Discards | Fails nat

text \<open>What this process may do with a file, and what writing to it does.\<close>

record access =
  readable :: bool
  writable :: bool
  effect :: write_effect

text \<open>
  What a path names:
  \<^item> \<open>Unreachable e\<close>: the path cannot be resolved, and opening it in any mode fails with
    the error \<open>e\<close>;
  \<^item> \<open>Vacant c\<close>: the directory is there but holds no entry of that name. Opening for
    reading raises \<open>FileNotFoundError\<close>. Opening for writing creates an empty file
    with the access \<open>m\<close> when \<open>c\<close> is \<open>Some m\<close>, and raises \<open>PermissionError\<close> when \<open>c\<close>
    is \<open>None\<close>;
  \<^item> \<open>File bytes m\<close>: a regular file or a device with the content \<open>bytes\<close> and the
    access \<open>m\<close>;
  \<^item> \<open>Directory\<close>: a directory, which \<open>open\<close> refuses in any mode.

  Opening a file for writing empties it, unless it discards what is written. A file
  that has been opened for reading is read to its end without error. Pipes, terminals
  and devices that never end are outside the model.
\<close>

datatype node =
    Unreachable resolve_error
  | Vacant "access option"
  | File "char list" access
  | Directory

type_synonym filesystem = "pystr \<Rightarrow> node"

definition open_read :: "filesystem \<Rightarrow> pystr \<Rightarrow> exn + char list" where
  "open_read fs file =
     (case path_failure file of
        Some e \<Rightarrow> Inl e
      | None \<Rightarrow>
          (case fs file of
             Unreachable e \<Rightarrow> Inl (os_error e)
           | Vacant c \<Rightarrow> Inl FileNotFoundError
           | Directory \<Rightarrow> Inl IsADirectoryError
           | File bytes m \<Rightarrow> if readable m then Inr bytes else Inl PermissionError))"

definition open_write :: "filesystem \<Rightarrow> pystr \<Rightarrow> exn + filesystem" where
  "open_write fs file =
     (case path_failure file of
        Some e \<Rightarrow> Inl e
      | None \<Rightarrow>
          (case fs file of
             Unreachable e \<Rightarrow> Inl (os_error e)
           | Vacant c \<Rightarrow>
               (case c of
                  None \<Rightarrow> Inl PermissionError
                | Some m \<Rightarrow> Inr (fs(file := File [] m)))
           | Directory \<Rightarrow> Inl IsADirectoryError
           | File bytes m \<Rightarrow>
               if \<not> writable m then Inl PermissionError
               else if effect m = Discards then Inr fs
               else Inr (fs(file := File [] m))))"

text \<open>
  Writing to the file that has been opened. The bytes reach the file when the buffer
  is flushed, at the latest when the \<open>with\<close> block is left, so an error of the device is
  raised inside the \<open>try\<close> block in any case.
\<close>

definition write_bytes ::
  "filesystem \<Rightarrow> pystr \<Rightarrow> char list \<Rightarrow> (exn \<times> filesystem) + filesystem" where
  "write_bytes fs file bytes =
     (case fs file of
        File old m \<Rightarrow>
          (case effect m of
             Keeps \<Rightarrow> Inr (fs(file := File (old @ bytes) m))
           | Discards \<Rightarrow> Inr fs
           | Fails n \<Rightarrow>
               if length bytes \<le> n
               then Inr (fs(file := File (old @ bytes) (m\<lparr>effect := Fails (n - length bytes)\<rparr>)))
               else Inl (OSError, fs(file := File (old @ take n bytes) (m\<lparr>effect := Fails 0\<rparr>))))
      | _ \<Rightarrow> Inr fs)"

text \<open>\<open>IOError\<close> is \<open>OSError\<close>; these are its subclasses among the exceptions here.\<close>

definition is_IOError :: "exn \<Rightarrow> bool" where
  "is_IOError e =
     (e = OSError \<or> e = FileNotFoundError \<or> e = NotADirectoryError \<or>
      e = IsADirectoryError \<or> e = PermissionError)"

section \<open>Loading and saving\<close>

text \<open>
  The state that the two functions work on: the files, what has been printed on
  \<open>sys.stderr\<close>, and the room that the stack has for the encoder and for the decoder
  when the program calls them.
\<close>

record world =
  files :: filesystem
  stderr :: "diagnostic list"
  encoder_room :: nat
  decoder_room :: nat

text \<open>
  The \<open>try\<close> block of \<open>load_data\<close>: open the file, read and decode its text, and hand it
  to the JSON decoder. The handlers catch \<open>FileNotFoundError\<close> and
  \<open>json.JSONDecodeError\<close>, each printing a message and returning \<open>{}\<close>; any other
  exception leaves the function. Nothing in \<open>load_data\<close> writes to a file.
\<close>

definition load_body :: "nat \<Rightarrow> pystr \<Rightarrow> filesystem \<Rightarrow> exn + pyval" where
  "load_body room file fs =
     (case open_read fs file of
        Inl e \<Rightarrow> Inl e
      | Inr bytes \<Rightarrow>
          (case utf8_decode bytes of
             None \<Rightarrow> Inl UnicodeDecodeError
           | Some text \<Rightarrow> json_loads room (universal_newlines text)))"

definition load_data :: "pystr \<Rightarrow> world \<Rightarrow> exn + (pyval \<times> world)" where
  "load_data file w =
     (case load_body (decoder_room w) file (files w) of
        Inr v \<Rightarrow> Inr (v, w)
      | Inl e \<Rightarrow>
          if e = FileNotFoundError
            then Inr (PDict [], w\<lparr>stderr := stderr w @ [FileNotFoundInfo file]\<rparr>)
          else if e = JSONDecodeError
            then Inr (PDict [], w\<lparr>stderr := stderr w @ [DecodeFailure file]\<rparr>)
          else Inl e)"

text \<open>
  The \<open>try\<close> block of \<open>save_data\<close>: open the file for writing, which empties it, and
  write what the encoder produces, which is all there is when the encoder does not
  raise. The result is the file system as the block leaves it, with the exception if
  there is one. An error of the device wins over one of the encoder, because it is
  raised last, when the file is closed. The encoder's text is ASCII, so its encoding as
  UTF-8 cannot fail.
\<close>

definition save_body ::
  "nat \<Rightarrow> dict \<Rightarrow> pystr \<Rightarrow> filesystem \<Rightarrow> (exn \<times> filesystem) + filesystem" where
  "save_body room stock_data file fs =
     (case open_write fs file of
        Inl e \<Rightarrow> Inl (e, fs)
      | Inr fs1 \<Rightarrow>
          (case utf8_encode (fst (json_dumps room (PDict stock_data))) of
             None \<Rightarrow> Inl (NotModelled, fs1)
           | Some bytes \<Rightarrow>
               (case write_bytes fs1 file bytes of
                  Inl (e, fs2) \<Rightarrow> Inl (e, fs2)
                | Inr fs2 \<Rightarrow>
                    (case snd (json_dumps room (PDict stock_data)) of
                       None \<Rightarrow> Inr fs2
                     | Some e \<Rightarrow> Inl (e, fs2)))))"

text \<open>
  \<open>save_data\<close>: the handler catches \<open>IOError\<close> and prints a message; any other exception
  leaves the function. In both cases the files stay as the \<open>try\<close> block left them.
\<close>

definition save_data :: "dict \<Rightarrow> pystr \<Rightarrow> world \<Rightarrow> (exn \<times> world) + world" where
  "save_data stock_data file w =
     (case save_body (encoder_room w) stock_data file (files w) of
        Inr fs' \<Rightarrow> Inr (w\<lparr>files := fs'\<rparr>)
      | Inl (e, fs') \<Rightarrow>
          if is_IOError e
          then Inr (w\<lparr>files := fs', stderr := stderr w @ [SaveFailure file e]\<rparr>)
          else Inl (e, w\<lparr>files := fs'\<rparr>))"

text \<open>\<open>save_data(stock_data, file)\<close> followed by \<open>load_data(file)\<close>, and what the latter returns.\<close>

definition save_then_load :: "dict \<Rightarrow> pystr \<Rightarrow> world \<Rightarrow> exn + pyval" where
  "save_then_load stock_data file w =
     (case save_data stock_data file w of
        Inl (e, w1) \<Rightarrow> Inl e
      | Inr w1 \<Rightarrow> (case load_data file w1 of Inl e \<Rightarrow> Inl e | Inr (v, w2) \<Rightarrow> Inr v))"

section \<open>Notions used in the properties\<close>

text \<open>
  The data model of an inventory: every stored quantity is an \<open>int\<close> instance
  (\<open>int_valued\<close>), and the invariant that each of them is strictly positive
  (\<open>all_positive\<close>). \<open>quantity d k\<close> is the stored quantity, 0 for an absent key.
  \<open>inventory_after\<close> is the inventory that a call leaves, whether it returned or raised.
\<close>

definition int_valued :: "dict \<Rightarrow> bool" where
  "int_valued d = (\<forall>v \<in> snd ` set d. isinstance_int v)"

definition all_positive :: "dict \<Rightarrow> bool" where
  "all_positive d = (\<forall>v \<in> snd ` set d. isinstance_int v \<and> 0 < int_value v)"

definition quantity :: "dict \<Rightarrow> pystr \<Rightarrow> int" where
  "quantity d k = int_value (dict_get d k (PInt 0))"

definition inventory_after :: "(exn \<times> dict) + (dict \<times> 'a) \<Rightarrow> dict" where
  "inventory_after r = (case r of Inl (e, d) \<Rightarrow> d | Inr (d, x) \<Rightarrow> d)"


fun positive_integer :: "pyval \<Rightarrow> bool" where
  "positive_integer (PInt n) = (0 < n)"
| "positive_integer v = False"


text \<open>
  The strings that the encoder's text is read back as: every code point is at most
  \<open>0x10FFFF\<close>, as in every Python \<open>str\<close>, and no high surrogate (\<open>0xD800\<close> to \<open>0xDBFF\<close>)
  stands directly before a low surrogate (\<open>0xDC00\<close> to \<open>0xDFFF\<close>).
\<close>

definition high_surrogate :: "nat \<Rightarrow> bool" where
  "high_surrogate c = (55296 \<le> c \<and> c \<le> 56319)"

definition low_surrogate :: "nat \<Rightarrow> bool" where
  "low_surrogate c = (56320 \<le> c \<and> c \<le> 57343)"

fun pair_free :: "pystr \<Rightarrow> bool" where
  "pair_free (c # d # cs) = (\<not> (high_surrogate c \<and> low_surrogate d) \<and> pair_free (d # cs))"
| "pair_free cs = True"

definition faithful :: "pystr \<Rightarrow> bool" where
  "faithful s = (list_all (\<lambda>c. c \<le> 1114111) s \<and> pair_free s)"

text \<open>
  The values that the encoder writes, at a nesting level and with the room that the
  stack has: the strings are as above, no \<open>int\<close> is beyond the digit limit, there is no
  float, every dictionary has each key once, and the nesting stays within the room.
\<close>

fun encodable :: "nat \<Rightarrow> nat \<Rightarrow> pyval \<Rightarrow> bool" where
  "encodable room level (PStr s) = faithful s"
| "encodable room level PNone = True"
| "encodable room level (PBool b) = True"
| "encodable room level (PInt n) = (\<not> too_long n)"
| "encodable room level (PFloat x) = False"
| "encodable room level (PList xs) =
     (level \<le> room \<and> list_all (encodable room (Suc level)) xs)"
| "encodable room level (PDict kvs) =
     (level \<le> room \<and> distinct (map fst kvs) \<and>
      list_all (\<lambda>kv. faithful (fst kv) \<and> encodable room (Suc level) (snd kv)) kvs)"

text \<open>
  A path at which the text of a saved inventory is kept and can be read back: the
  name can be given to the operating system, and either nothing is there and a file
  that is created reads and keeps what is written, or a file is there that this process
  may read and write and that keeps what is written.
\<close>

fun keeps_and_reads :: "node \<Rightarrow> bool" where
  "keeps_and_reads (Vacant (Some m)) = (readable m \<and> effect m = Keeps)"
| "keeps_and_reads (File bytes m) = (readable m \<and> writable m \<and> effect m = Keeps)"
| "keeps_and_reads n = False"

definition storable :: "filesystem \<Rightarrow> pystr \<Rightarrow> bool" where
  "storable fs file = (path_failure file = None \<and> keeps_and_reads (fs file))"

text \<open>
  Example file systems: \<open>empty_disk\<close> has no file anywhere and lets any file be created;
  \<open>disk_with file bytes\<close> has in addition one readable and writable file.
\<close>

definition read_write :: access where
  "read_write = \<lparr>readable = True, writable = True, effect = Keeps\<rparr>"

definition empty_disk :: filesystem where
  "empty_disk = (\<lambda>file. Vacant (Some read_write))"

definition disk_with :: "pystr \<Rightarrow> char list \<Rightarrow> filesystem" where
  "disk_with file bytes = empty_disk(file := File bytes read_write)"

text \<open>
  The tokens that the text of a value is read as: the items of a list and the pairs of
  a dictionary, separated by commas, between the brackets.
\<close>

fun tokens_of :: "pyval \<Rightarrow> token list" where
  "tokens_of (PList []) = [LBracket, RBracket]"
| "tokens_of (PList (x # xs)) =
     LBracket # tokens_of x @ concat (map (\<lambda>y. Comma # tokens_of y) xs) @ [RBracket]"
| "tokens_of (PDict []) = [LBrace, RBrace]"
| "tokens_of (PDict (kv # kvs)) =
     LBrace # Scalar (PStr (fst kv)) # Colon # tokens_of (snd kv) @
     concat (map (\<lambda>p. Comma # Scalar (PStr (fst p)) # Colon # tokens_of (snd p)) kvs) @
     [RBrace]"
| "tokens_of v = [Scalar v]"

text \<open>A text after which a number literal ends: not a digit, a point or an exponent mark.\<close>

definition ends_number :: "pystr \<Rightarrow> bool" where
  "ends_number rest =
     (case rest of [] \<Rightarrow> True | r # rs \<Rightarrow> \<not> is_digit r \<and> r \<noteq> 46 \<and> r \<noteq> 101 \<and> r \<noteq> 69)"

text \<open>The characters of a saved text: the line feed and the printable ASCII characters.\<close>

definition plain :: "nat \<Rightarrow> bool" where
  "plain c = (c = 10 \<or> (32 \<le> c \<and> c \<le> 126))"

text \<open>
  A state in which nothing has been printed yet and the stack has the same room for
  the encoder and for the decoder.
\<close>

definition fresh_world :: "filesystem \<Rightarrow> nat \<Rightarrow> world" where
  "fresh_world fs room = \<lparr>files = fs, stderr = [], encoder_room = room, decoder_room = room\<rparr>"

section \<open>Properties of the inventory operations\<close>



lemma dec_digits_nonempty: "dec_digits n \<noteq> []"
  by (subst dec_digits.simps) simp

lemma dec_digits_length: "0 < k \<Longrightarrow> length (dec_digits n) \<le> k \<longleftrightarrow> n < 10 ^ k"
proof (induction n arbitrary: k rule: dec_digits.induct)
  case (1 n)
  show ?case
  proof (cases "n < 10")
    case True
    have "(10::nat) ^ 1 \<le> 10 ^ k" using "1.prems" by (intro power_increasing) simp_all
    with True "1.prems" show ?thesis by (simp add: dec_digits.simps[of n])
  next
    case False
    show ?thesis
    proof (cases "k = 1")
      case True
      with False dec_digits_nonempty[of "n div 10"] show ?thesis
        by (simp add: dec_digits.simps[of n])
    next
      case k: False
      with "1.prems" obtain j where j: "k = Suc j" "0 < j" by (cases k) auto
      have "n div 10 < 10 ^ j \<longleftrightarrow> n < 10 ^ Suc j"
        by (simp add: div_less_iff_less_mult mult.commute)
      with "1.IH"[OF False j(2)] False show ?thesis
        by (simp add: dec_digits.simps[of n] j(1))
    qed
  qed
qed

lemma too_long_iff: "too_long n \<longleftrightarrow> 10 ^ int_max_str_digits \<le> \<bar>n\<bar>"
proof -
  have pos: "0 < int_max_str_digits" by (simp add: int_max_str_digits_def)
  have "nat \<bar>n\<bar> < 10 ^ int_max_str_digits \<longleftrightarrow> \<bar>n\<bar> < 10 ^ int_max_str_digits"
    by (simp add: nat_less_iff)
  with dec_digits_length[OF pos, of "nat \<bar>n\<bar>"] show ?thesis
    by (auto simp: too_long_def)
qed

lemma limit_ge_10: "(10::int) \<le> 10 ^ int_max_str_digits"
proof -
  have "(10::int) ^ 1 \<le> 10 ^ int_max_str_digits"
    by (intro power_increasing) (simp_all add: int_max_str_digits_def)
  then show ?thesis by simp
qed

lemma limit_pos: "(0::int) < 10 ^ int_max_str_digits"
  by simp


lemma values_update: "snd ` set (AList.update k v d) \<subseteq> insert v (snd ` set d)"
  by (induction d) auto

lemma all_positive_update:
  "all_positive d \<Longrightarrow> isinstance_int v \<Longrightarrow> 0 < int_value v \<Longrightarrow> all_positive (AList.update k v d)"
  unfolding all_positive_def using values_update[of k v d] by blast

lemma all_positive_delete: "all_positive d \<Longrightarrow> all_positive (AList.delete k d)"
  by (auto simp: all_positive_def AList.delete_eq)

lemma all_positive_delete_update:
  "all_positive d \<Longrightarrow> all_positive (AList.delete k (AList.update k v d))"
  by (simp add: delete_update_same all_positive_delete)

lemma all_positive_lookup:
  "all_positive d \<Longrightarrow> map_of d k = Some v \<Longrightarrow> isinstance_int v \<and> 0 < int_value v"
  by (auto simp: all_positive_def dest!: map_of_SomeD)

lemma int_valued_lookup: "int_valued d \<Longrightarrow> map_of d k = Some v \<Longrightarrow> isinstance_int v"
  by (auto simp: int_valued_def dest!: map_of_SomeD)

lemma int_valued_update:
  "int_valued d \<Longrightarrow> isinstance_int v \<Longrightarrow> int_valued (AList.update k v d)"
  unfolding int_valued_def using values_update[of k v d] by blast

lemma all_positive_int_valued: "all_positive d \<Longrightarrow> int_valued d"
  by (auto simp: all_positive_def int_valued_def)

lemma get_qty_update: "get_qty (AList.update s v d) (PStr s) = Inr v"
  by (simp add: dict_get_def update_conv')

text \<open>What the two functions do on input that passes the validation.\<close>

lemma add_item_valid:
  assumes "s \<noteq> []" and "isinstance_int qty" and "0 < int_value qty" and "int_valued stock"
  shows "add_item now stock (PStr s) qty logs err =
           (if format_failure qty = None
            then Inr (AList.update s (PInt (quantity stock s + int_value qty)) stock,
                      map_option (\<lambda>l. l @ [log_entry now qty (PStr s)]) logs, err)
            else Inl (ValueError, AList.update s (PInt (quantity stock s + int_value qty)) stock))"
proof -
  have "isinstance_int (dict_get stock s (PInt 0))"
    using int_valued_lookup[OF assms(4), of s]
    by (auto simp: dict_get_def split: option.splits)
  moreover have "format_failure qty = None \<or> format_failure qty = Some ValueError"
    using assms(2) by (cases qty) auto
  ultimately show ?thesis using assms(1-3)
    by (cases logs) (auto simp: add_item_def bad_qty_def py_add_def quantity_def)
qed

lemma remove_item_absent:
  assumes "s \<noteq> []" and "isinstance_int qty" and "0 < int_value qty" and "map_of stock s = None"
  shows "remove_item stock (PStr s) qty err = Inr (stock, err)"
  using assms by (simp add: remove_item_def bad_qty_def remove_body_def dict_getitem_def)

lemma remove_item_present:
  assumes "s \<noteq> []" and "isinstance_int qty" and "0 < int_value qty"
    and "map_of stock s = Some v" and "isinstance_int v"
  shows "remove_item stock (PStr s) qty err =
           Inr (if 0 < int_value v - int_value qty
                then AList.update s (PInt (int_value v - int_value qty)) stock
                else AList.delete s (AList.update s (PInt (int_value v - int_value qty)) stock),
                err)"
  using assms
  by (simp add: remove_item_def bad_qty_def remove_body_def dict_getitem_def py_sub_def
      update_conv')

lemma rejected_unchanged:
  assumes "bad_item item \<or> bad_qty qty"
  shows "inventory_after (add_item now stock item qty logs err) = stock"
    and "inventory_after (remove_item stock item qty err) = stock"
  using assms
  by (auto simp: add_item_def remove_item_def inventory_after_def split: option.splits)

lemma add_item_after_positive:
  assumes "all_positive stock"
  shows "all_positive (inventory_after (add_item now stock item qty logs err))"
proof (cases "bad_item item \<or> bad_qty qty")
  case True
  from rejected_unchanged(1)[OF this] assms show ?thesis by simp
next
  case False
  then obtain s where s: "item = PStr s" "s \<noteq> []" by (cases item) auto
  from False have q: "isinstance_int qty" "0 < int_value qty" by (auto simp: bad_qty_def)
  have "0 \<le> quantity stock s"
    using all_positive_lookup[OF assms, of s]
    by (auto simp: quantity_def dict_get_def split: option.splits)
  with q have "all_positive (AList.update s (PInt (quantity stock s + int_value qty)) stock)"
    by (intro all_positive_update[OF assms]) simp_all
  then show ?thesis
    unfolding s add_item_valid[OF s(2) q all_positive_int_valued[OF assms]]
    by (simp add: inventory_after_def)
qed

lemma remove_item_after_positive:
  assumes "all_positive stock"
  shows "all_positive (inventory_after (remove_item stock item qty err))"
proof (cases "bad_item item \<or> bad_qty qty")
  case True
  from rejected_unchanged(2)[OF this] assms show ?thesis by simp
next
  case False
  then obtain s where s: "item = PStr s" "s \<noteq> []" by (cases item) auto
  from False have q: "isinstance_int qty" "0 < int_value qty" by (auto simp: bad_qty_def)
  show ?thesis
  proof (cases "map_of stock s")
    case None
    from remove_item_absent[OF s(2) q None] assms show ?thesis
      by (simp add: s inventory_after_def)
  next
    case (Some v)
    then have v: "isinstance_int v" using all_positive_lookup[OF assms] by blast
    show ?thesis
      unfolding s remove_item_present[OF s(2) q Some v]
      using assms
      by (auto simp: inventory_after_def intro!: all_positive_update all_positive_delete_update)
  qed
qed

text \<open>
  C1. Starting from an inventory in which every stored quantity is strictly positive, a
  call of \<open>add_item\<close> or of \<open>remove_item\<close>, with any item, any quantity and any log
  argument, leaves an inventory in which every stored quantity is strictly positive,
  whether the call returns or raises. On valid input \<open>add_item\<close> leaves the item with
  its previous quantity plus the one given. When \<open>remove_item\<close> is given a stored item
  and a positive integer, it returns normally; a difference above zero is stored, and
  an item whose quantity would reach zero or below is no longer a key of the mapping.
\<close>

theorem positive_quantities_preserved:
  assumes "all_positive stock"
  shows "all_positive (inventory_after (add_item now stock item qty logs err)) \<and>
         all_positive (inventory_after (remove_item stock item qty err)) \<and>
         (\<forall>s q. item = PStr s \<and> s \<noteq> [] \<and> qty = PInt q \<and> 0 < q \<longrightarrow>
            map_of (inventory_after (add_item now stock item qty logs err)) s =
              Some (PInt (quantity stock s + q))) \<and>
         (\<forall>s q v. item = PStr s \<and> s \<noteq> [] \<and> qty = PInt q \<and> 0 < q \<and> map_of stock s = Some v \<longrightarrow>
            (\<exists>stock'.
               remove_item stock item qty err = Inr (stock', err) \<and>
               (\<forall>k. k \<noteq> s \<longrightarrow> map_of stock' k = map_of stock k) \<and>
               (if q < int_value v then map_of stock' s = Some (PInt (int_value v - q))
                else s \<notin> fst ` set stock')))"
proof (intro conjI allI impI)
  show "all_positive (inventory_after (add_item now stock item qty logs err))"
    by (rule add_item_after_positive[OF assms])
  show "all_positive (inventory_after (remove_item stock item qty err))"
    by (rule remove_item_after_positive[OF assms])
next
  fix s q
  assume a: "item = PStr s \<and> s \<noteq> [] \<and> qty = PInt q \<and> 0 < q"
  then have "add_item now stock item qty logs err =
      (if format_failure qty = None
       then Inr (AList.update s (PInt (quantity stock s + int_value qty)) stock,
                 map_option (\<lambda>l. l @ [log_entry now qty (PStr s)]) logs, err)
       else Inl (ValueError, AList.update s (PInt (quantity stock s + int_value qty)) stock))"
    using add_item_valid[OF _ _ _ all_positive_int_valued[OF assms], of s qty now logs err]
    by simp
  with a show "map_of (inventory_after (add_item now stock item qty logs err)) s =
      Some (PInt (quantity stock s + q))"
    by (simp add: inventory_after_def update_conv')
next
  fix s q v
  assume a: "item = PStr s \<and> s \<noteq> [] \<and> qty = PInt q \<and> 0 < q \<and> map_of stock s = Some v"
  then have v: "isinstance_int v" using all_positive_lookup[OF assms] by blast
  let ?v' = "PInt (int_value v - q)"
  from a v have r: "remove_item stock item qty err =
      Inr (if 0 < int_value v - q then AList.update s ?v' stock
           else AList.delete s (AList.update s ?v' stock), err)"
    using remove_item_present[of s qty stock v err] by simp
  show "\<exists>stock'.
      remove_item stock item qty err = Inr (stock', err) \<and>
      (\<forall>k. k \<noteq> s \<longrightarrow> map_of stock' k = map_of stock k) \<and>
      (if q < int_value v then map_of stock' s = Some (PInt (int_value v - q))
       else s \<notin> fst ` set stock')"
  proof (cases "q < int_value v")
    case True
    with r show ?thesis by (simp add: update_conv')
  next
    case False
    have "s \<notin> fst ` set (AList.delete s (AList.update s ?v' stock))"
      by (rule delete_notin_dom)
    with False r show ?thesis by (simp add: delete_conv' update_conv')
  qed
qed

theorem positive_quantities_preserved_witness:
  "all_positive [(map of_char ''apple'', PInt 3)] \<and>
   add_item (map of_char ''12:00'') [(map of_char ''apple'', PInt 3)]
     (PStr (map of_char ''pear'')) (PInt 2) None [] =
     Inr ([(map of_char ''apple'', PInt 3), (map of_char ''pear'', PInt 2)], None, []) \<and>
   all_positive [(map of_char ''apple'', PInt 3), (map of_char ''pear'', PInt 2)] \<and>
   remove_item [(map of_char ''apple'', PInt 3)] (PStr (map of_char ''apple'')) (PInt 5) []
     = Inr ([], []) \<and>
   map of_char ''apple'' \<notin> fst ` set ([] :: dict)"
proof -
  let ?stock = "[(map of_char ''apple'', PInt 3)] :: dict"
  have h: "all_positive ?stock"
    by (simp add: all_positive_def)
  have small: "\<not> too_long 2"
    using limit_ge_10 by (simp add: too_long_iff)
  have a: "add_item (map of_char ''12:00'') ?stock (PStr (map of_char ''pear'')) (PInt 2) None [] =
      Inr ([(map of_char ''apple'', PInt 3), (map of_char ''pear'', PInt 2)], None, [])"
    by (simp add: add_item_def bad_qty_def py_add_def dict_get_def small)
  have r: "remove_item ?stock (PStr (map of_char ''apple'')) (PInt 5) [] = Inr ([], [])"
    by (simp add: remove_item_def bad_qty_def remove_body_def dict_getitem_def py_sub_def)
  from positive_quantities_preserved[OF h, of "map of_char ''12:00''"
      "PStr (map of_char ''pear'')" "PInt 2" None "[]"]
  have "all_positive (inventory_after (add_item (map of_char ''12:00'') ?stock
      (PStr (map of_char ''pear'')) (PInt 2) None []))"
    by blast
  with a h r show ?thesis by (simp add: inventory_after_def)
qed

text \<open>
  C3, as the spec states it, fails: for the positive integer \<open>10 ^ 4300\<close>, which has
  4301 digits, \<open>add_item\<close> stores the quantity and then raises \<open>ValueError\<close> when it
  formats the log entry, so that nothing is appended to the log.
\<close>

theorem add_item_counterexample:
  "add_item (map of_char ''t0'') [] (PStr (map of_char ''x'')) (PInt (10 ^ int_max_str_digits))
     (Some []) [] =
   Inl (ValueError, [(map of_char ''x'', PInt (10 ^ int_max_str_digits))])"
proof -
  have "too_long (10 ^ int_max_str_digits)" by (simp add: too_long_iff)
  with limit_pos show ?thesis
    by (simp add: add_item_def bad_qty_def py_add_def dict_get_def del: zero_less_power)
qed

text \<open>
  C3, amended. For an inventory of integer quantities, a non-empty string \<open>s\<close> and a
  positive integer \<open>q\<close> of at most 4300 decimal digits, \<open>add_item\<close> returns normally and
  prints nothing; afterwards the quantity stored for \<open>s\<close> is the previous one (0 for an
  absent key) plus \<open>q\<close>, every other key is as before, and a supplied log list has grown
  by exactly the one entry \<open><now>: Added <q> of <s>\<close>. A second such call for the same
  item adds its quantity to the first. For a positive integer \<open>q\<close> of more than 4300
  digits, \<open>add_item\<close> stores the sum in the same way and then raises \<open>ValueError\<close>.
\<close>

theorem add_item_accumulates:
  assumes "s \<noteq> []" and "0 < q" and "int_valued stock"
  shows "(q < 10 ^ int_max_str_digits \<longrightarrow>
           (\<exists>stock'.
              add_item now stock (PStr s) (PInt q) logs err =
                Inr (stock',
                     map_option
                       (\<lambda>l. l @ [now @ map of_char '': Added '' @ str_int q @
                                 map of_char '' of '' @ s])
                       logs,
                     err) \<and>
              map_of stock' s = Some (PInt (quantity stock s + q)) \<and>
              get_qty stock' (PStr s) = Inr (PInt (quantity stock s + q)) \<and>
              (\<forall>k. k \<noteq> s \<longrightarrow> map_of stock' k = map_of stock k) \<and>
              (\<forall>now2 q2 logs2. 0 < q2 \<and> q2 < 10 ^ int_max_str_digits \<longrightarrow>
                 (\<exists>stock2 logs2'.
                    add_item now2 stock' (PStr s) (PInt q2) logs2 err =
                      Inr (stock2, logs2', err) \<and>
                    get_qty stock2 (PStr s) = Inr (PInt (quantity stock s + q + q2)))))) \<and>
         (10 ^ int_max_str_digits \<le> q \<longrightarrow>
            add_item now stock (PStr s) (PInt q) logs err =
              Inl (ValueError, AList.update s (PInt (quantity stock s + q)) stock))"
proof (intro conjI impI)
  assume small: "q < 10 ^ int_max_str_digits"
  let ?stock' = "AList.update s (PInt (quantity stock s + q)) stock"
  have ff: "format_failure (PInt q) = None"
    using small assms(2) by (simp add: too_long_iff)
  have first: "add_item now stock (PStr s) (PInt q) logs err =
      Inr (?stock', map_option (\<lambda>l. l @ [log_entry now (PInt q) (PStr s)]) logs, err)"
    using add_item_valid[OF assms(1) _ _ assms(3), of "PInt q" now logs err] assms(2) ff
    by simp
  have entry: "log_entry now (PInt q) (PStr s) =
      now @ map of_char '': Added '' @ str_int q @ map of_char '' of '' @ s"
    by (simp add: log_entry_def)
  have iv: "int_valued ?stock'"
    using assms(3) by (simp add: int_valued_update)
  have q': "quantity ?stock' s = quantity stock s + q"
    by (simp add: quantity_def dict_get_def update_conv')
  have second: "\<exists>stock2 logs2'.
      add_item now2 ?stock' (PStr s) (PInt q2) logs2 err = Inr (stock2, logs2', err) \<and>
      get_qty stock2 (PStr s) = Inr (PInt (quantity stock s + q + q2))"
    if "0 < q2 \<and> q2 < 10 ^ int_max_str_digits" for now2 q2 logs2
  proof -
    from that have "format_failure (PInt q2) = None" by (simp add: too_long_iff)
    with that show ?thesis
      using add_item_valid[OF assms(1) _ _ iv, of "PInt q2" now2 logs2 err]
      by (simp add: q' dict_get_def update_conv')
  qed
  have other: "\<forall>k. k \<noteq> s \<longrightarrow> map_of ?stock' k = map_of stock k"
    by (simp add: update_conv')
  have here: "map_of ?stock' s = Some (PInt (quantity stock s + q))"
    by (simp add: update_conv')
  show "\<exists>stock'.
      add_item now stock (PStr s) (PInt q) logs err =
        Inr (stock',
             map_option
               (\<lambda>l. l @ [now @ map of_char '': Added '' @ str_int q @ map of_char '' of '' @ s])
               logs,
             err) \<and>
      map_of stock' s = Some (PInt (quantity stock s + q)) \<and>
      get_qty stock' (PStr s) = Inr (PInt (quantity stock s + q)) \<and>
      (\<forall>k. k \<noteq> s \<longrightarrow> map_of stock' k = map_of stock k) \<and>
      (\<forall>now2 q2 logs2. 0 < q2 \<and> q2 < 10 ^ int_max_str_digits \<longrightarrow>
         (\<exists>stock2 logs2'.
            add_item now2 stock' (PStr s) (PInt q2) logs2 err = Inr (stock2, logs2', err) \<and>
            get_qty stock2 (PStr s) = Inr (PInt (quantity stock s + q + q2))))"
    using first entry other here second get_qty_update[of s "PInt (quantity stock s + q)" stock]
    by (intro exI[of _ ?stock']) simp
next
  assume big: "10 ^ int_max_str_digits \<le> q"
  then have "format_failure (PInt q) = Some ValueError"
    using assms(2) by (simp add: too_long_iff)
  then show "add_item now stock (PStr s) (PInt q) logs err =
      Inl (ValueError, AList.update s (PInt (quantity stock s + q)) stock)"
    using add_item_valid[OF assms(1) _ _ assms(3), of "PInt q" now logs err] assms(2)
    by simp
qed

theorem add_item_accumulates_witness:
  "map of_char ''x'' \<noteq> ([]::pystr) \<and> (0::int) < 3 \<and> int_valued [] \<and>
   (3::int) < 10 ^ int_max_str_digits \<and>
   add_item (map of_char ''t0'') [] (PStr (map of_char ''x'')) (PInt 3) (Some []) [] =
     Inr ([(map of_char ''x'', PInt 3)], Some [map of_char ''t0: Added 3 of x''], []) \<and>
   (\<exists>stock2 logs2.
      add_item (map of_char ''t1'') [(map of_char ''x'', PInt 3)] (PStr (map of_char ''x''))
        (PInt 2) None [] = Inr (stock2, logs2, []) \<and>
      get_qty stock2 (PStr (map of_char ''x'')) = Inr (PInt 5))"
proof -
  have h1: "map of_char ''x'' \<noteq> ([]::pystr)" by simp
  have h2: "(0::int) < 3" by simp
  have h3: "int_valued []" by (simp add: int_valued_def)
  have h4: "(3::int) < 10 ^ int_max_str_digits"
    using limit_ge_10 by simp
  have h5: "(0::int) < 2 \<and> (2::int) < 10 ^ int_max_str_digits"
    using h4 by simp
  have small: "\<not> too_long 3" using h4 by (simp add: too_long_iff)
  have first: "add_item (map of_char ''t0'') [] (PStr (map of_char ''x'')) (PInt 3) (Some []) [] =
     Inr ([(map of_char ''x'', PInt 3)], Some [map of_char ''t0: Added 3 of x''], [])"
    by (simp add: add_item_def bad_qty_def py_add_def dict_get_def log_entry_def str_int_def
        dec_digits.simps small)
  from add_item_accumulates[OF h1 h2 h3, of "map of_char ''t0''" "Some []" "[]"] h4
  obtain stock' where
    a: "add_item (map of_char ''t0'') [] (PStr (map of_char ''x'')) (PInt 3) (Some []) [] =
          Inr (stock', map_option
            (\<lambda>l. l @ [map of_char ''t0'' @ map of_char '': Added '' @ str_int 3 @
               map of_char '' of '' @ map of_char ''x'']) (Some []), [])"
    and b: "\<forall>now2 q2 logs2. 0 < q2 \<and> q2 < 10 ^ int_max_str_digits \<longrightarrow>
              (\<exists>stock2 logs2'.
                 add_item now2 stock' (PStr (map of_char ''x'')) (PInt q2) logs2 [] =
                   Inr (stock2, logs2', []) \<and>
                 get_qty stock2 (PStr (map of_char ''x'')) = Inr (PInt (quantity [] (map of_char ''x'') + 3 + q2)))"
    by blast
  from a first have s': "stock' = [(map of_char ''x'', PInt 3)]" by simp
  have "quantity [] (map of_char ''x'') = 0" by (simp add: quantity_def dict_get_def)
  with b[rule_format, of 2 "map of_char ''t1''" None] s' h1 h2 h3 h4 h5 first
  show ?thesis by simp
qed

text \<open>
  C4. For a non-empty string \<open>s\<close> and a positive integer \<open>q\<close>: when \<open>s\<close> is not a key,
  \<open>remove_item\<close> returns normally with the inventory and the error stream as they were.
  When \<open>s\<close> is stored with the integer quantity \<open>p\<close>, it returns normally, leaves every
  other key as before and, if \<open>p - q > 0\<close>, stores \<open>p - q\<close> for \<open>s\<close>; otherwise \<open>s\<close> is
  no longer a key and \<open>get_qty\<close> reports 0 for it.
\<close>

theorem remove_item_decrements:
  assumes "s \<noteq> []" and "0 < q"
  shows "(map_of stock s = None \<longrightarrow>
            remove_item stock (PStr s) (PInt q) err = Inr (stock, err)) \<and>
         (\<forall>v. map_of stock s = Some v \<and> isinstance_int v \<longrightarrow>
            (\<exists>stock'.
               remove_item stock (PStr s) (PInt q) err = Inr (stock', err) \<and>
               (\<forall>k. k \<noteq> s \<longrightarrow> map_of stock' k = map_of stock k) \<and>
               (if 0 < int_value v - q
                then map_of stock' s = Some (PInt (int_value v - q)) \<and>
                     map fst stock' = map fst stock \<and>
                     get_qty stock' (PStr s) = Inr (PInt (int_value v - q))
                else s \<notin> fst ` set stock' \<and>
                     get_qty stock' (PStr s) = Inr (PInt 0))))"
proof (intro conjI allI impI)
  assume "map_of stock s = None"
  then show "remove_item stock (PStr s) (PInt q) err = Inr (stock, err)"
    using assms by (simp add: remove_item_def bad_qty_def remove_body_def dict_getitem_def)
next
  fix v
  assume v: "map_of stock s = Some v \<and> isinstance_int v"
  let ?v' = "PInt (int_value v - q)"
  let ?stock1 = "AList.update s ?v' stock"
  have keys: "map fst ?stock1 = map fst stock"
    using v by (simp add: update_keys map_of_eq_None_iff[symmetric] del: map_of_eq_None_iff)
  show "\<exists>stock'.
          remove_item stock (PStr s) (PInt q) err = Inr (stock', err) \<and>
          (\<forall>k. k \<noteq> s \<longrightarrow> map_of stock' k = map_of stock k) \<and>
          (if 0 < int_value v - q
           then map_of stock' s = Some (PInt (int_value v - q)) \<and>
                map fst stock' = map fst stock \<and>
                get_qty stock' (PStr s) = Inr (PInt (int_value v - q))
           else s \<notin> fst ` set stock' \<and> get_qty stock' (PStr s) = Inr (PInt 0))"
  proof (cases "0 < int_value v - q")
    case True
    then have "remove_item stock (PStr s) (PInt q) err = Inr (?stock1, err)"
      using assms v
      by (simp add: remove_item_def bad_qty_def remove_body_def dict_getitem_def py_sub_def
          update_conv')
    with True keys show ?thesis
      by (intro exI[of _ ?stock1]) (simp add: update_conv' dict_get_def)
  next
    case False
    let ?stock2 = "AList.delete s ?stock1"
    from False have "remove_item stock (PStr s) (PInt q) err = Inr (?stock2, err)"
      using assms v
      by (simp add: remove_item_def bad_qty_def remove_body_def dict_getitem_def py_sub_def
          update_conv')
    moreover have "map_of ?stock2 s = None"
      by (simp add: delete_conv')
    moreover have "s \<notin> fst ` set ?stock2"
      by (rule delete_notin_dom)
    moreover have "\<forall>k. k \<noteq> s \<longrightarrow> map_of ?stock2 k = map_of stock k"
      by (simp add: delete_conv' update_conv')
    ultimately show ?thesis using False
      by (intro exI[of _ ?stock2]) (simp add: dict_get_def)
  qed
qed

theorem remove_item_decrements_witness:
  "map of_char ''x'' \<noteq> ([]::pystr) \<and> (0::int) < 5 \<and>
   remove_item [] (PStr (map of_char ''ghost'')) (PInt 1) [] = Inr ([], []) \<and>
   remove_item [(map of_char ''x'', PInt 3)] (PStr (map of_char ''x'')) (PInt 5) [] = Inr ([], []) \<and>
   get_qty [] (PStr (map of_char ''x'')) = Inr (PInt 0) \<and>
   remove_item [(map of_char ''x'', PInt 7)] (PStr (map of_char ''x'')) (PInt 5) [] =
     Inr ([(map of_char ''x'', PInt 2)], [])"
proof -
  have h1: "map of_char ''x'' \<noteq> ([]::pystr)" by simp
  have h2: "(0::int) < 5" by simp
  have ev: "remove_item [(map of_char ''x'', PInt 3)] (PStr (map of_char ''x'')) (PInt 5) [] =
      Inr ([], [])"
    "remove_item [(map of_char ''x'', PInt 7)] (PStr (map of_char ''x'')) (PInt 5) [] =
      Inr ([(map of_char ''x'', PInt 2)], [])"
    "remove_item [] (PStr (map of_char ''ghost'')) (PInt 1) [] = Inr ([], [])"
    by (simp_all add: remove_item_def bad_qty_def remove_body_def dict_getitem_def py_sub_def)
  show ?thesis
    using h1 h2 ev
      remove_item_decrements[OF h1 h2, of "[(map of_char ''x'', PInt 3)]" "[]"]
    by simp
qed




lemma check_low_items_int:
  "int_valued stock \<Longrightarrow>
   check_low_items stock (PInt t) =
     Inr (map fst (filter (\<lambda>(item, qty). int_value qty < t) stock))"
proof (induction stock)
  case Nil
  show ?case by simp
next
  case (Cons kv stock)
  obtain k v where kv: "kv = (k, v)" by (cases kv)
  from Cons.prems have v: "isinstance_int v" and rest: "int_valued stock"
    by (simp_all add: int_valued_def kv)
  have "py_lt v (PInt t) = Inr (int_value v < t)"
    using v by (cases v) simp_all
  then show ?case using Cons.IH[OF rest] by (simp add: kv)
qed

text \<open>
  C7. For an inventory of integer quantities and an integer threshold,
  \<open>check_low_items\<close> returns normally, and its result is the list of the names whose
  quantity is strictly below the threshold, in the order in which the inventory holds
  them. The empty inventory gives the empty list, whatever the threshold.
\<close>

theorem check_low_items_exact:
  assumes "int_valued stock"
  shows "check_low_items stock (PInt t) =
           Inr (map fst (filter (\<lambda>(item, qty). int_value qty < t) stock)) \<and>
         check_low_items [] threshold = Inr []"
  using check_low_items_int[OF assms] by simp

theorem check_low_items_exact_witness:
  "int_valued [(map of_char ''a'', PInt 2), (map of_char ''b'', PInt 10),
               (map of_char ''c'', PInt 4)] \<and>
   check_low_items [(map of_char ''a'', PInt 2), (map of_char ''b'', PInt 10),
                    (map of_char ''c'', PInt 4)] (PInt 5) =
     Inr [map of_char ''a'', map of_char ''c'']"
proof -
  have h: "int_valued [(map of_char ''a'', PInt 2), (map of_char ''b'', PInt 10),
                       (map of_char ''c'', PInt 4)]"
    by (simp add: int_valued_def)
  show ?thesis
    using h check_low_items_exact[OF h, of 5] by simp
qed

text \<open>
  C10. The Boolean \<open>True\<close> is not a positive integer, but the quantity check of both
  functions lets it through. On an inventory of integer quantities and a non-empty
  string \<open>s\<close>, \<open>add_item\<close> with the quantity \<open>True\<close> returns normally, prints nothing
  and raises the stored quantity of \<open>s\<close> by 1; \<open>remove_item\<close> with the quantity \<open>True\<close>
  does what it does with the quantity 1.
\<close>

theorem boolean_quantity_accepted:
  assumes "s \<noteq> []" and "int_valued stock"
  shows "\<not> positive_integer (PBool True) \<and> \<not> bad_qty (PBool True) \<and>
         (\<exists>stock' logs'.
            add_item now stock (PStr s) (PBool True) logs err = Inr (stock', logs', err) \<and>
            get_qty stock' (PStr s) = Inr (PInt (quantity stock s + 1))) \<and>
         remove_item stock (PStr s) (PBool True) err = remove_item stock (PStr s) (PInt 1) err"
proof -
  have "add_item now stock (PStr s) (PBool True) logs err =
      Inr (AList.update s (PInt (quantity stock s + 1)) stock,
           map_option (\<lambda>l. l @ [log_entry now (PBool True) (PStr s)]) logs, err)"
    using add_item_valid[OF assms(1) _ _ assms(2), of "PBool True" now logs err] by simp
  moreover have "remove_item stock (PStr s) (PBool True) err =
      remove_item stock (PStr s) (PInt 1) err"
  proof -
    have sub: "py_sub v (PBool True) = py_sub v (PInt 1)" for v
      by (simp add: py_sub_def)
    have "remove_body stock s (PBool True) = remove_body stock s (PInt 1)"
      unfolding remove_body_def sub ..
    then show ?thesis
      by (simp add: remove_item_def bad_qty_def)
  qed
  ultimately show ?thesis
    by (simp add: bad_qty_def dict_get_def update_conv')
qed

theorem boolean_quantity_accepted_witness:
  "map of_char ''apple'' \<noteq> ([]::pystr) \<and> int_valued [(map of_char ''apple'', PInt 10)] \<and>
   add_item (map of_char ''t0'') [(map of_char ''apple'', PInt 10)]
       (PStr (map of_char ''apple'')) (PBool True) None [] =
     Inr ([(map of_char ''apple'', PInt 11)], None, []) \<and>
   remove_item [(map of_char ''apple'', PInt 10)] (PStr (map of_char ''apple'')) (PBool True) [] =
     Inr ([(map of_char ''apple'', PInt 9)], [])"
proof -
  have h1: "map of_char ''apple'' \<noteq> ([]::pystr)" by simp
  have h2: "int_valued [(map of_char ''apple'', PInt 10)]" by (simp add: int_valued_def)
  have ev: "add_item (map of_char ''t0'') [(map of_char ''apple'', PInt 10)]
       (PStr (map of_char ''apple'')) (PBool True) None [] =
     Inr ([(map of_char ''apple'', PInt 11)], None, [])"
    "remove_item [(map of_char ''apple'', PInt 10)] (PStr (map of_char ''apple'')) (PInt 1) [] =
     Inr ([(map of_char ''apple'', PInt 9)], [])"
    by (simp_all add: add_item_def remove_item_def bad_qty_def py_add_def py_sub_def
        dict_get_def remove_body_def dict_getitem_def)
  show ?thesis
    using h1 h2 ev
      boolean_quantity_accepted[OF h1 h2, of "map of_char ''t0''" None "[]"]
    by simp
qed

section \<open>Properties of saving and loading\<close>

subsection \<open>Integers are read back\<close>

lemma dec_digits_digits: "\<forall>d \<in> set (dec_digits n). is_digit d"
proof (induction n rule: dec_digits.induct)
  case (1 n)
  show ?case
  proof (cases "n < 10")
    case True
    then show ?thesis by (simp add: dec_digits.simps[of n] is_digit_def)
  next
    case False
    have "n mod 10 < 10" by simp
    then have "is_digit (48 + n mod 10)" unfolding is_digit_def by linarith
    with False "1.IH" show ?thesis by (simp add: dec_digits.simps[of n])
  qed
qed

lemma digits_value_snoc: "digits_value (ds @ [d]) = 10 * digits_value ds + (d - 48)"
  by (simp add: digits_value_def)

lemma digits_value_dec_digits: "digits_value (dec_digits n) = n"
proof (induction n rule: dec_digits.induct)
  case (1 n)
  show ?case
  proof (cases "n < 10")
    case True
    then show ?thesis by (simp add: dec_digits.simps[of n] digits_value_def)
  next
    case False
    with "1.IH" show ?thesis
      by (simp add: dec_digits.simps[of n] digits_value_snoc)
  qed
qed

lemma dec_digits_hd: "0 < n \<Longrightarrow> 49 \<le> hd (dec_digits n) \<and> hd (dec_digits n) \<le> 57"
proof (induction n rule: dec_digits.induct)
  case (1 n)
  show ?case
  proof (cases "n < 10")
    case True
    with "1.prems" show ?thesis by (simp add: dec_digits.simps[of n])
  next
    case False
    then have "0 < n div 10" by simp
    with False "1.IH" show ?thesis
      by (simp add: dec_digits.simps[of n] dec_digits_nonempty)
  qed
qed

lemma takeWhile_digits_end:
  "\<forall>d \<in> set ds. is_digit d \<Longrightarrow> ends_number rest \<Longrightarrow> takeWhile is_digit (ds @ rest) = ds"
  by (cases rest) (simp_all add: ends_number_def takeWhile_append2)

lemma int_part_dec_digits:
  assumes "ends_number rest"
  shows "int_part (dec_digits n @ rest) = dec_digits n"
proof (cases "n = 0")
  case True
  then show ?thesis by (simp add: dec_digits.simps[of 0])
next
  case False
  obtain d ds where ds: "dec_digits n = d # ds"
    using dec_digits_nonempty[of n] by (cases "dec_digits n") auto
  from False dec_digits_hd[of n] have d: "49 \<le> d \<and> d \<le> 57" by (simp add: ds)
  from dec_digits_digits[of n] have "\<forall>x \<in> set ds. is_digit x" by (simp add: ds)
  from takeWhile_digits_end[OF this assms] d show ?thesis by (simp add: ds)
qed

lemma frac_part_end: "ends_number rest \<Longrightarrow> frac_part rest = []"
  by (cases rest) (simp_all add: ends_number_def)

lemma exp_part_end: "ends_number rest \<Longrightarrow> exp_part rest = []"
  by (cases rest) (simp_all add: ends_number_def)

lemma dec_digits_not_minus: "take 1 (dec_digits n @ rest) \<noteq> [45]"
proof -
  obtain d ds where ds: "dec_digits n = d # ds"
    using dec_digits_nonempty[of n] by (cases "dec_digits n") auto
  from dec_digits_digits[of n] have "is_digit d" by (simp add: ds)
  then show ?thesis by (simp add: ds is_digit_def)
qed

lemma match_number_str_int:
  assumes "ends_number rest" and "\<not> too_long n"
  shows "match_number (str_int n @ rest) = Some (Inr (PInt n), rest)"
proof -
  from assms(2) have len: "\<not> int_max_str_digits < length (dec_digits (nat \<bar>n\<bar>))"
    by (simp add: too_long_def)
  show ?thesis
  proof (cases "n < 0")
    case True
    then have "nat \<bar>n\<bar> = nat (- n)" by simp
    with len True show ?thesis
      using int_part_dec_digits[OF assms(1)] frac_part_end[OF assms(1)] exp_part_end[OF assms(1)]
      by (simp add: match_number_def str_int_def dec_digits_nonempty digits_value_dec_digits)
  next
    case False
    then have "nat \<bar>n\<bar> = nat n" by simp
    with len False show ?thesis
      using int_part_dec_digits[OF assms(1)] frac_part_end[OF assms(1)] exp_part_end[OF assms(1)]
        dec_digits_not_minus[of "nat n" rest]
      by (simp add: match_number_def str_int_def dec_digits_nonempty digits_value_dec_digits)
  qed
qed

lemma lex_number_start:
  assumes "is_digit c \<or> (c = 45 \<and> (\<exists>d ds. cs = d # ds \<and> is_digit d))"
  shows "lex (c # cs) =
           (case match_number (c # cs) of
              None \<Rightarrow> [Bad JSONDecodeError]
            | Some (Inl e, rest) \<Rightarrow> [Bad e]
            | Some (Inr v, rest) \<Rightarrow> Scalar v # lex rest)"
proof -
  from assms have c: "c = 45 \<or> (48 \<le> c \<and> c \<le> 57)"
    by (auto simp: is_digit_def)
  then have ne: "c \<noteq> 32" "c \<noteq> 9" "c \<noteq> 10" "c \<noteq> 13" "c \<noteq> 123" "c \<noteq> 125" "c \<noteq> 91"
    "c \<noteq> 93" "c \<noteq> 58" "c \<noteq> 44" "c \<noteq> 34" "c \<noteq> 110" "c \<noteq> 116" "c \<noteq> 102" "c \<noteq> 78"
    "c \<noteq> 73"
    by linarith+
  have sw: "\<not> starts_with (c # cs) (map of_char ''null'')"
    "\<not> starts_with (c # cs) (map of_char ''true'')"
    "\<not> starts_with (c # cs) (map of_char ''false'')"
    "\<not> starts_with (c # cs) (map of_char ''NaN'')"
    "\<not> starts_with (c # cs) (map of_char ''Infinity'')"
    using ne by (simp_all add: starts_with_def)
  have inf: "\<not> starts_with (c # cs) (map of_char ''-Infinity'')"
  proof (cases "c = 45")
    case True
    with assms obtain d ds where "cs = d # ds" "is_digit d" by (auto simp: is_digit_def)
    then show ?thesis by (auto simp: starts_with_def is_digit_def)
  next
    case False
    then show ?thesis by (simp add: starts_with_def)
  qed
  show ?thesis
    by (subst lex.simps) (simp only: ne sw inf if_False simp_thms)
qed

lemma lex_str_int:
  assumes "ends_number rest" and "\<not> too_long n"
  shows "lex (str_int n @ rest) = Scalar (PInt n) # lex rest"
proof -
  obtain d ds where ds: "dec_digits (nat \<bar>n\<bar>) = d # ds"
    using dec_digits_nonempty[of "nat \<bar>n\<bar>"] by (cases "dec_digits (nat \<bar>n\<bar>)") auto
  from dec_digits_digits[of "nat \<bar>n\<bar>"] have d: "is_digit d" by (simp add: ds)
  obtain c cs where c: "str_int n @ rest = c # cs"
    and start: "is_digit c \<or> (c = 45 \<and> (\<exists>d ds. cs = d # ds \<and> is_digit d))"
  proof (cases "n < 0")
    case True
    then have "str_int n @ rest = 45 # d # ds @ rest"
      using ds by (simp add: str_int_def abs_if)
    with d that show ?thesis by blast
  next
    case False
    then have "str_int n @ rest = d # ds @ rest"
      using ds by (simp add: str_int_def abs_if)
    with d that show ?thesis by blast
  qed
  show ?thesis
    unfolding c lex_number_start[OF start]
    using match_number_str_int[OF assms, of] by (simp add: c)
qed

subsection \<open>Strings are read back\<close>

lemma hex_value_hex_digit: "d < 16 \<Longrightarrow> hex_value (hex_digit d) = Some d"
  by (auto simp: hex_value_def hex_digit_def)

lemma hex4_sum:
  fixes n :: nat
  shows "4096 * (n div 4096) + 256 * (n div 256 mod 16) + 16 * (n div 16 mod 16) + n mod 16 = n"
proof -
  have a: "n div 256 = n div 16 div 16" and b: "n div 4096 = n div 256 div 16"
    by (simp_all add: div_mult2_eq[symmetric])
  have "n = 16 * (n div 16) + n mod 16" by simp
  moreover have "n div 16 = 16 * (n div 256) + n div 16 mod 16"
    unfolding a by simp
  moreover have "n div 256 = 16 * (n div 4096) + n div 256 mod 16"
    unfolding b by simp
  ultimately show ?thesis by linarith
qed

lemma hex4_value_hex4:
  assumes "n < 65536"
  shows "hex4_value (hex4 n) = Some n"
proof -
  have lt: "n div 4096 < 16" using assms by simp
  then have "n div 4096 mod 16 = n div 4096" by simp
  then show ?thesis
    using hex4_sum[of n] lt by (simp add: hex4_def hex_value_hex_digit)
qed

lemma length_hex4 [simp]: "length (hex4 n) = 4"
  by (simp add: hex4_def)

lemma take_hex4 [simp]: "take 4 (hex4 n @ rest) = hex4 n" "drop 4 (hex4 n @ rest) = rest"
  by (simp_all add: hex4_def)

text \<open>
  Whether the escape of a high surrogate would be joined with what follows it: the text
  goes on with \<open>\u\<close> and four characters that are not the digits of anything but a
  low surrogate.
\<close>

lemma scanstring_escape_u:
  assumes "n < 65536"
    and "high_surrogate n \<Longrightarrow> take 2 rest \<noteq> [92, 117] \<or>
           (\<exists>u. hex4_value (take 4 (drop 2 rest)) = Some u \<and> \<not> low_surrogate u)"
  shows "scanstring (escape_u n @ rest) = prepend n (scanstring rest)"
proof (cases "high_surrogate n")
  case False
  with assms(1) show ?thesis
    by (auto simp: escape_u_def hex4_value_hex4 high_surrogate_def)
next
  case True
  from assms(2)[OF True] True assms(1) show ?thesis
    by (auto simp: escape_u_def hex4_value_hex4 high_surrogate_def low_surrogate_def)
qed

lemma scanstring_escape_pair:
  assumes "65536 \<le> c" and "c \<le> 1114111"
  shows "scanstring (escape_u (55296 + (c - 65536) div 1024 mod 1024) @
                     escape_u (56320 + (c - 65536) mod 1024) @ rest) =
         prepend c (scanstring rest)"
proof -
  define hi where "hi = 55296 + (c - 65536) div 1024 mod 1024"
  define lo where "lo = 56320 + (c - 65536) mod 1024"
  have hi: "55296 \<le> hi" "hi \<le> 56319" "hi < 65536" by (simp_all add: hi_def)
  have lo: "56320 \<le> lo" "lo \<le> 57343" "lo < 65536" by (simp_all add: lo_def)
  have "(c - 65536) div 1024 < 1024" using assms by simp
  then have "65536 + ((hi - 55296) * 1024 + (lo - 56320)) = c"
    using assms by (simp add: hi_def lo_def)
  then show ?thesis
    unfolding hi_def[symmetric] lo_def[symmetric]
    using hi lo by (simp add: escape_u_def hex4_value_hex4)
qed

text \<open>What the text of a character that is not a low surrogate starts with.\<close>

lemma escape_char_start:
  assumes "c \<le> 1114111" and "\<not> low_surrogate c"
  shows "take 2 (escape_char c @ rest) \<noteq> [92, 117] \<or>
         (\<exists>u. hex4_value (take 4 (drop 2 (escape_char c @ rest))) = Some u \<and> \<not> low_surrogate u)"
proof -
  consider "c \<in> {34, 92, 10, 13, 9, 12, 8}"
    | "c \<notin> {34, 92, 10, 13, 9, 12, 8}" "32 \<le> c" "c \<le> 126"
    | "c \<notin> {34, 92, 10, 13, 9, 12, 8}" "\<not> (32 \<le> c \<and> c \<le> 126)" "c < 65536"
    | "65536 \<le> c"
    by linarith
  then show ?thesis
  proof cases
    case 1
    then obtain x where "escape_char c = [92, x]" "x \<noteq> 117"
      by (auto simp: escape_char_def)
    then have "take 2 (escape_char c @ rest) \<noteq> [92, 117]" by simp
    then show ?thesis ..
  next
    case 2
    then have "escape_char c = [c]" "c \<noteq> 92" by (auto simp: escape_char_def)
    then have "take 2 (escape_char c @ rest) \<noteq> [92, 117]"
      by (simp add: numeral_2_eq_2)
    then show ?thesis ..
  next
    case 3
    then have "escape_char c = escape_u c" by (auto simp: escape_char_def)
    with 3(3) assms(2) show ?thesis by (simp add: escape_u_def hex4_value_hex4)
  next
    case 4
    define hi where "hi = 55296 + (c - 65536) div 1024 mod 1024"
    have hi: "hi < 65536" "\<not> low_surrogate hi" by (simp_all add: hi_def low_surrogate_def)
    from 4 have "escape_char c = escape_u hi @ escape_u (56320 + (c - 65536) mod 1024)"
      by (auto simp: escape_char_def hi_def)
    with hi show ?thesis by (simp add: escape_u_def hex4_value_hex4)
  qed
qed

lemma scanstring_escape_char:
  assumes "c \<le> 1114111"
    and "high_surrogate c \<Longrightarrow> take 2 rest \<noteq> [92, 117] \<or>
           (\<exists>u. hex4_value (take 4 (drop 2 rest)) = Some u \<and> \<not> low_surrogate u)"
  shows "scanstring (escape_char c @ rest) = prepend c (scanstring rest)"
proof -
  consider "c \<in> {34, 92, 10, 13, 9, 12, 8}"
    | "c \<notin> {34, 92, 10, 13, 9, 12, 8}" "32 \<le> c" "c \<le> 126"
    | "c \<notin> {34, 92, 10, 13, 9, 12, 8}" "\<not> (32 \<le> c \<and> c \<le> 126)" "c < 65536"
    | "65536 \<le> c"
    by linarith
  then show ?thesis
  proof cases
    case 1
    then show ?thesis by (auto simp: escape_char_def unescape_def)
  next
    case 2
    then show ?thesis by (auto simp: escape_char_def)
  next
    case 3
    from scanstring_escape_u[OF 3(3) assms(2)] 3 show ?thesis
      by (auto simp: escape_char_def)
  next
    case 4
    from scanstring_escape_pair[OF 4 assms(1)] 4 show ?thesis
      by (auto simp: escape_char_def)
  qed
qed

lemma scanstring_escaped:
  assumes "faithful s"
  shows "scanstring (concat (map escape_char s) @ 34 # rest) = Inr (s, rest)"
  using assms
proof (induction s)
  case Nil
  show ?case by simp
next
  case (Cons c s)
  from Cons.prems have c: "c \<le> 1114111" and s: "faithful s"
    by (cases s; simp add: faithful_def)+
  have follow: "take 2 (concat (map escape_char s) @ 34 # rest) \<noteq> [92, 117] \<or>
      (\<exists>u. hex4_value (take 4 (drop 2 (concat (map escape_char s) @ 34 # rest))) = Some u \<and>
           \<not> low_surrogate u)"
    if "high_surrogate c"
  proof (cases s)
    case Nil
    then show ?thesis by simp
  next
    case (Cons d s')
    with Cons.prems that have d: "d \<le> 1114111" "\<not> low_surrogate d"
      by (simp_all add: faithful_def)
    from escape_char_start[OF d, of "concat (map escape_char s') @ 34 # rest"] show ?thesis
      by (simp add: Cons)
  qed
  from scanstring_escape_char[OF c follow] Cons.IH[OF s] show ?case
    by (simp add: prepend_def)
qed

lemma lex_string:
  assumes "faithful s"
  shows "lex (encode_basestring_ascii s @ rest) = Scalar (PStr s) # lex rest"
  using scanstring_escaped[OF assms, of rest]
  by (simp add: encode_basestring_ascii_def)

lemma lex_newline_indent: "lex (newline_indent level @ rest) = lex rest"
proof -
  have "lex (replicate k 32 @ rest) = lex rest" for k
    by (induction k) simp_all
  then show ?thesis by (simp add: newline_indent_def)
qed

subsection \<open>What the encoder writes\<close>

lemma and_then_emit: "and_then (emit s) b = (s @ fst b, snd b)"
  by (simp add: and_then_def emit_def)

lemma and_then_ok: "snd a = None \<Longrightarrow> and_then a b = (fst a @ fst b, snd b)"
  by (simp add: and_then_def)

lemma list_item_ok: "snd out = None \<Longrightarrow> list_item buf x out = (buf @ fst out, None)"
  by (simp add: list_item_def and_then_def emit_def)

lemma list_items_ok:
  assumes "\<forall>x \<in> set xs. snd (f x) = None"
  shows "list_items separator separator (map (\<lambda>x. (x, f x)) xs) =
           (concat (map (\<lambda>x. separator @ fst (f x)) xs), None)"
  using assms by (induction xs) (simp_all add: emit_def list_item_ok and_then_def)

lemma dict_items_ok:
  assumes "\<forall>kv \<in> set kvs. snd (f kv) = None"
  shows "dict_items False separator (map (\<lambda>kv. (fst kv, f kv)) kvs) =
           (concat (map (\<lambda>kv. separator @ encode_basestring_ascii (fst kv) @ [58, 32] @
                                fst (f kv)) kvs),
            None)"
  using assms by (induction kvs) (simp_all add: emit_def and_then_def)

text \<open>The text of a list and of a dictionary whose items are all written.\<close>

lemma iterencode_list:
  assumes "level \<le> room" and "\<forall>y \<in> set (x # xs). snd (iterencode room (Suc level) y) = None"
  shows "iterencode room level (PList (x # xs)) =
           ([91] @ newline_indent (Suc level) @ fst (iterencode room (Suc level) x) @
            concat (map (\<lambda>y. (44 # newline_indent (Suc level)) @
                              fst (iterencode room (Suc level) y)) xs) @
            newline_indent level @ [93],
            None)"
proof -
  from assms(2) have x: "snd (iterencode room (Suc level) x) = None"
    and xs: "\<forall>y \<in> set xs. snd (iterencode room (Suc level) y) = None"
    by simp_all
  from assms(1) have room: "\<not> room < level" by simp
  show ?thesis
    by (simp add: room list_item_ok[OF x] list_items_ok[OF xs] and_then_def emit_def)
qed

lemma iterencode_dict:
  assumes "level \<le> room"
    and "\<forall>p \<in> set (kv # kvs). snd (iterencode room (Suc level) (snd p)) = None"
  shows "iterencode room level (PDict (kv # kvs)) =
           ([123] @ newline_indent (Suc level) @
            encode_basestring_ascii (fst kv) @ [58, 32] @
            fst (iterencode room (Suc level) (snd kv)) @
            concat (map (\<lambda>p. (44 # newline_indent (Suc level)) @
                              encode_basestring_ascii (fst p) @ [58, 32] @
                              fst (iterencode room (Suc level) (snd p))) kvs) @
            newline_indent level @ [125],
            None)"
proof -
  from assms(2) have kv: "snd (iterencode room (Suc level) (snd kv)) = None"
    and kvs: "\<forall>p \<in> set kvs. snd (iterencode room (Suc level) (snd p)) = None"
    by simp_all
  from assms(1) have room: "\<not> room < level" by simp
  show ?thesis
    by (simp add: room kv dict_items_ok[OF kvs] and_then_def emit_def)
qed

lemma snds_snd: "snd p \<in> Basic_BNFs.snds p"
  by (cases p) simp

lemma iterencode_succeeds:
  "encodable room level v \<Longrightarrow> snd (iterencode room level v) = None"
proof (induction v arbitrary: level)
  case (PList xs)
  show ?case
  proof (cases xs)
    case Nil
    with PList.prems show ?thesis by (simp add: emit_def)
  next
    case (Cons x xs')
    from PList.prems have "\<forall>y \<in> set xs. encodable room (Suc level) y"
      by (simp add: list_all_iff)
    with PList.IH have "\<forall>y \<in> set (x # xs'). snd (iterencode room (Suc level) y) = None"
      by (simp add: Cons)
    from iterencode_list[OF _ this] PList.prems show ?thesis
      by (simp add: Cons)
  qed
next
  case (PDict kvs)
  show ?case
  proof (cases kvs)
    case Nil
    with PDict.prems show ?thesis by (simp add: emit_def)
  next
    case (Cons kv kvs')
    from PDict.prems have "\<forall>p \<in> set kvs. encodable room (Suc level) (snd p)"
      by (simp add: list_all_iff)
    with PDict.IH snds_snd
    have "\<forall>p \<in> set (kv # kvs'). snd (iterencode room (Suc level) (snd p)) = None"
      unfolding Cons by blast
    from iterencode_dict[OF _ this] PDict.prems show ?thesis
      by (simp add: Cons)
  qed
qed (simp_all add: emit_def repr_int_def)

subsection \<open>The text of a value is read as its tokens\<close>

lemma ends_number_simps:
  "ends_number []" "ends_number (44 # cs)" "ends_number (newline_indent level @ cs)"
  by (simp_all add: ends_number_def newline_indent_def is_digit_def)

lemma lex_items:
  assumes "\<And>y more. y \<in> set xs \<Longrightarrow> ends_number more \<Longrightarrow> lex (txt y @ more) = toks y @ lex more"
    and "ends_number tail"
  shows "lex (concat (map (\<lambda>y. (44 # newline_indent l) @ txt y) xs) @ tail) =
           concat (map (\<lambda>y. Comma # toks y) xs) @ lex tail \<and>
         ends_number (concat (map (\<lambda>y. (44 # newline_indent l) @ txt y) xs) @ tail)"
  using assms(1)
proof (induction xs)
  case Nil
  show ?case by (simp add: assms(2))
next
  case (Cons y ys)
  let ?more = "concat (map (\<lambda>y. (44 # newline_indent l) @ txt y) ys) @ tail"
  from Cons have IH: "lex ?more = concat (map (\<lambda>y. Comma # toks y) ys) @ lex tail"
    and e: "ends_number ?more"
    by simp_all
  have a: "lex (44 # newline_indent l @ txt y @ ?more) = Comma # lex (txt y @ ?more)"
    by (simp add: lex_newline_indent)
  have b: "lex (txt y @ ?more) = toks y @ lex ?more"
    by (rule Cons.prems[OF _ e]) simp
  have c: "concat (map (\<lambda>y. (44 # newline_indent l) @ txt y) (y # ys)) @ tail =
      44 # newline_indent l @ txt y @ ?more"
    by simp
  show ?case unfolding c a b IH by (simp add: ends_number_simps)
qed

lemma lex_value:
  "encodable room level v \<Longrightarrow> ends_number rest \<Longrightarrow>
   lex (fst (iterencode room level v) @ rest) = tokens_of v @ lex rest"
proof (induction v arbitrary: level rest)
  case PNone
  show ?case by (simp add: emit_def starts_with_def)
next
  case (PBool b)
  show ?case by (cases b) (simp_all add: emit_def starts_with_def)
next
  case (PInt n)
  then show ?case by (simp add: emit_def repr_int_def lex_str_int)
next
  case (PFloat x)
  then show ?case by simp
next
  case (PStr s)
  then show ?case by (simp add: emit_def lex_string)
next
  case (PList xs)
  show ?case
  proof (cases xs)
    case Nil
    with PList.prems show ?thesis by (simp add: emit_def)
  next
    case (Cons x xs')
    let ?txt = "\<lambda>y. fst (iterencode room (Suc level) y)"
    let ?tail = "newline_indent level @ [93] @ rest"
    let ?more = "concat (map (\<lambda>y. (44 # newline_indent (Suc level)) @ ?txt y) xs') @ ?tail"
    from PList.prems have enc: "\<forall>y \<in> set xs. encodable room (Suc level) y" and l: "level \<le> room"
      by (simp_all add: list_all_iff)
    then have ok: "\<forall>y \<in> set (x # xs'). snd (iterencode room (Suc level) y) = None"
      using iterencode_succeeds by (simp add: Cons)
    have item: "lex (?txt y @ more) = tokens_of y @ lex more"
      if "y \<in> set xs" "ends_number more" for y more
      using PList.IH[OF that(1) _ that(2)] enc that(1) by blast
    have "lex ?more = concat (map (\<lambda>y. Comma # tokens_of y) xs') @ lex ?tail \<and> ends_number ?more"
      by (rule lex_items) (use item Cons ends_number_simps in auto)
    then have more: "lex ?more = concat (map (\<lambda>y. Comma # tokens_of y) xs') @ lex ?tail"
      and e: "ends_number ?more"
      by simp_all
    have tail: "lex ?tail = RBracket # lex rest"
      by (simp add: lex_newline_indent)
    have a: "lex (fst (iterencode room level (PList (x # xs'))) @ rest) =
        LBracket # lex (?txt x @ ?more)"
      unfolding iterencode_list[OF l ok] by (simp add: lex_newline_indent)
    have b: "lex (?txt x @ ?more) = tokens_of x @ lex ?more"
      by (rule item[OF _ e]) (simp add: Cons)
    show ?thesis unfolding Cons a b more tail by simp
  qed
next
  case (PDict kvs)
  show ?case
  proof (cases kvs)
    case Nil
    with PDict.prems show ?thesis by (simp add: emit_def)
  next
    case (Cons kv kvs')
    let ?txt = "\<lambda>p. encode_basestring_ascii (fst p) @ [58, 32] @
        fst (iterencode room (Suc level) (snd p))"
    let ?toks = "\<lambda>p. Scalar (PStr (fst p)) # Colon # tokens_of (snd p)"
    let ?tail = "newline_indent level @ [125] @ rest"
    let ?more = "concat (map (\<lambda>p. (44 # newline_indent (Suc level)) @ ?txt p) kvs') @ ?tail"
    from PDict.prems have enc: "\<forall>p \<in> set kvs. faithful (fst p) \<and> encodable room (Suc level) (snd p)"
      and l: "level \<le> room"
      by (simp_all add: list_all_iff)
    then have ok: "\<forall>p \<in> set (kv # kvs'). snd (iterencode room (Suc level) (snd p)) = None"
      using iterencode_succeeds by (simp add: Cons)
    have item: "lex (?txt p @ more) = ?toks p @ lex more"
      if "p \<in> set kvs" "ends_number more" for p more
    proof -
      from enc that(1) have k: "faithful (fst p)" and v: "encodable room (Suc level) (snd p)"
        by simp_all
      have a: "lex (?txt p @ more) =
          Scalar (PStr (fst p)) # lex (58 # 32 # fst (iterencode room (Suc level) (snd p)) @ more)"
        using lex_string[OF k] by simp
      have b: "lex (58 # 32 # fst (iterencode room (Suc level) (snd p)) @ more) =
          Colon # lex (fst (iterencode room (Suc level) (snd p)) @ more)"
        by simp
      have c: "lex (fst (iterencode room (Suc level) (snd p)) @ more) =
          tokens_of (snd p) @ lex more"
        by (rule PDict.IH[OF that(1) snds_snd v that(2)])
      show ?thesis unfolding a b c by simp
    qed
    have "lex ?more = concat (map (\<lambda>p. Comma # ?toks p) kvs') @ lex ?tail \<and> ends_number ?more"
      by (rule lex_items) (use item Cons ends_number_simps in auto)
    then have more: "lex ?more = concat (map (\<lambda>p. Comma # ?toks p) kvs') @ lex ?tail"
      and e: "ends_number ?more"
      by simp_all
    have tail: "lex ?tail = RBrace # lex rest"
      by (simp add: lex_newline_indent)
    have a: "lex (fst (iterencode room level (PDict (kv # kvs'))) @ rest) =
        LBrace # lex (?txt kv @ ?more)"
      unfolding iterencode_dict[OF l ok] by (simp add: lex_newline_indent)
    have b: "lex (?txt kv @ ?more) = ?toks kv @ lex ?more"
      by (rule item[OF _ e]) (simp add: Cons)
    show ?thesis unfolding Cons a b more tail by simp
  qed
qed

subsection \<open>The tokens of a value are parsed as the value\<close>

lemma tokens_of_start:
  "\<exists>t ts. tokens_of v = t # ts \<and> t \<noteq> RBracket \<and> t \<noteq> RBrace"
proof (cases v)
  case (PList xs)
  then show ?thesis by (cases xs) simp_all
next
  case (PDict kvs)
  then show ?thesis by (cases kvs) simp_all
qed simp_all

lemma parse_items:
  assumes "\<And>y acc ts. y \<in> set (x # xs) \<Longrightarrow>
             parse_value room (InList acc # st) (tokens_of y @ ts) =
               after_value room y (InList acc # st) ts"
  shows "parse_value room (InList acc # st)
           (tokens_of x @ concat (map (\<lambda>y. Comma # tokens_of y) xs) @ RBracket # ts) =
         after_value room (PList (acc @ x # xs)) st ts"
  using assms
proof (induction xs arbitrary: acc x)
  case Nil
  then show ?case by simp
next
  case (Cons y ys)
  have "parse_value room (InList acc # st)
      (tokens_of x @ concat (map (\<lambda>y. Comma # tokens_of y) (y # ys)) @ RBracket # ts) =
      parse_value room (InList (acc @ [x]) # st)
        (tokens_of y @ concat (map (\<lambda>y. Comma # tokens_of y) ys) @ RBracket # ts)"
    by (simp add: Cons.prems)
  also have "\<dots> = after_value room (PList ((acc @ [x]) @ y # ys)) st ts"
    by (rule Cons.IH) (simp add: Cons.prems)
  finally show ?case by simp
qed

lemma parse_members:
  assumes "\<And>p acc k ts. p \<in> set (kv # kvs) \<Longrightarrow>
             parse_value room (InDict acc k # st) (tokens_of (snd p) @ ts) =
               after_value room (snd p) (InDict acc k # st) ts"
  shows "parse_value room (InDict acc (fst kv) # st)
           (tokens_of (snd kv) @
            concat (map (\<lambda>p. Comma # Scalar (PStr (fst p)) # Colon # tokens_of (snd p)) kvs) @
            RBrace # ts) =
         after_value room
           (PDict (foldl (\<lambda>d p. AList.update (fst p) (snd p) d) acc (kv # kvs))) st ts"
  using assms
proof (induction kvs arbitrary: acc kv)
  case Nil
  then show ?case by simp
next
  case (Cons q qs)
  let ?toks = "\<lambda>p. Comma # Scalar (PStr (fst p)) # Colon # tokens_of (snd p)"
  have "parse_value room (InDict acc (fst kv) # st)
      (tokens_of (snd kv) @ concat (map ?toks (q # qs)) @ RBrace # ts) =
      parse_value room (InDict (AList.update (fst kv) (snd kv) acc) (fst q) # st)
        (tokens_of (snd q) @ concat (map ?toks qs) @ RBrace # ts)"
    by (simp add: Cons.prems)
  also have "\<dots> = after_value room
      (PDict (foldl (\<lambda>d p. AList.update (fst p) (snd p) d)
         (AList.update (fst kv) (snd kv) acc) (q # qs))) st ts"
    by (rule Cons.IH) (simp add: Cons.prems)
  finally show ?case by simp
qed

lemma update_fresh: "k \<notin> fst ` set d \<Longrightarrow> AList.update k v d = d @ [(k, v)]"
  by (induction d) auto

lemma foldl_update_distinct:
  "distinct (map fst acc @ map fst kvs) \<Longrightarrow>
   foldl (\<lambda>d p. AList.update (fst p) (snd p) d) acc kvs = acc @ kvs"
proof (induction kvs arbitrary: acc)
  case Nil
  show ?case by simp
next
  case (Cons p ps)
  from Cons.prems have fresh: "fst p \<notin> fst ` set acc" by auto
  from Cons.prems have "distinct (map fst (acc @ [p]) @ map fst ps)"
    by auto
  from Cons.IH[OF this] show ?case
    by (simp add: update_fresh[OF fresh])
qed

lemma parse_tokens_of:
  "encodable room (length st) v \<Longrightarrow>
   parse_value room st (tokens_of v @ ts) = after_value room v st ts"
proof (induction v arbitrary: st ts)
  case (PList xs)
  from PList.prems have room: "\<not> room < length st" by simp
  show ?case
  proof (cases xs)
    case Nil
    with room show ?thesis by simp
  next
    case (Cons x xs')
    from PList.prems have enc: "\<forall>y \<in> set xs. encodable room (Suc (length st)) y"
      by (simp add: list_all_iff)
    obtain t ts' where t: "tokens_of x = t # ts'" "t \<noteq> RBracket"
      using tokens_of_start[of x] by blast
    have "parse_value room st (tokens_of (PList (x # xs')) @ ts) =
        parse_value room (InList [] # st)
          (tokens_of x @ concat (map (\<lambda>y. Comma # tokens_of y) xs') @ RBracket # ts)"
      using room t by (cases t) simp_all
    also have "\<dots> = after_value room (PList ([] @ x # xs')) st ts"
    proof (rule parse_items)
      fix y acc ts
      assume "y \<in> set (x # xs')"
      then have y: "y \<in> set xs" by (simp add: Cons)
      with enc have "encodable room (length (InList acc # st)) y" by simp
      from PList.IH[OF y this]
      show "parse_value room (InList acc # st) (tokens_of y @ ts) =
          after_value room y (InList acc # st) ts" .
    qed
    finally show ?thesis by (simp add: Cons)
  qed
next
  case (PDict kvs)
  from PDict.prems have room: "\<not> room < length st" by simp
  show ?case
  proof (cases kvs)
    case Nil
    with room show ?thesis by simp
  next
    case (Cons kv kvs')
    let ?toks = "\<lambda>p. Comma # Scalar (PStr (fst p)) # Colon # tokens_of (snd p)"
    from PDict.prems have enc: "\<forall>p \<in> set kvs. encodable room (Suc (length st)) (snd p)"
      and di: "distinct (map fst kvs)"
      by (simp_all add: list_all_iff)
    have "parse_value room st (tokens_of (PDict (kv # kvs')) @ ts) =
        parse_value room (InDict [] (fst kv) # st)
          (tokens_of (snd kv) @ concat (map ?toks kvs') @ RBrace # ts)"
      using room by simp
    also have "\<dots> = after_value room
        (PDict (foldl (\<lambda>d p. AList.update (fst p) (snd p) d) [] (kv # kvs'))) st ts"
    proof (rule parse_members)
      fix p acc k ts
      assume "p \<in> set (kv # kvs')"
      then have p: "p \<in> set kvs" by (simp add: Cons)
      with enc have "encodable room (length (InDict acc k # st)) (snd p)" by simp
      from PDict.IH[OF p snds_snd this]
      show "parse_value room (InDict acc k # st) (tokens_of (snd p) @ ts) =
          after_value room (snd p) (InDict acc k # st) ts" .
    qed
    also have "foldl (\<lambda>d p. AList.update (fst p) (snd p) d) [] (kv # kvs') = [] @ kvs"
      unfolding Cons[symmetric] by (rule foldl_update_distinct) (simp add: di)
    finally show ?thesis by (simp add: Cons)
  qed
qed simp_all

subsection \<open>The saved text is plain ASCII\<close>

lemma plain_hex_digit: "d < 16 \<Longrightarrow> plain (hex_digit d)"
  by (auto simp: plain_def hex_digit_def)

lemma plain_escape_u: "\<forall>c \<in> set (escape_u n). plain c"
  by (simp add: escape_u_def hex4_def plain_hex_digit) (simp add: plain_def)

lemma plain_escape_char: "\<forall>c \<in> set (escape_char x). plain c"
  using plain_escape_u by (auto simp: escape_char_def plain_def)

lemma plain_string: "\<forall>c \<in> set (encode_basestring_ascii s). plain c"
  using plain_escape_char by (auto simp: encode_basestring_ascii_def plain_def)

lemma plain_str_int: "\<forall>c \<in> set (str_int n). plain c"
proof -
  have "\<forall>c \<in> set (dec_digits m). plain c" for m
    using dec_digits_digits[of m] by (auto simp: plain_def is_digit_def)
  then show ?thesis by (simp add: str_int_def plain_def)
qed

lemma plain_newline_indent: "\<forall>c \<in> set (newline_indent level). plain c"
  by (auto simp: newline_indent_def plain_def)

lemma plain_emit: "\<forall>c \<in> set s. plain c \<Longrightarrow> \<forall>c \<in> set (fst (emit s)). plain c"
  by (simp add: emit_def)

lemma plain_fails: "\<forall>c \<in> set (fst (fails e)). plain c"
  by (simp add: fails_def)

lemma plain_and_then:
  "\<forall>c \<in> set (fst a). plain c \<Longrightarrow> \<forall>c \<in> set (fst b). plain c \<Longrightarrow>
   \<forall>c \<in> set (fst (and_then a b)). plain c"
  by (auto simp: and_then_def split: option.splits)

lemma plain_list_item:
  "\<forall>c \<in> set buf. plain c \<Longrightarrow> \<forall>c \<in> set (fst out). plain c \<Longrightarrow>
   \<forall>c \<in> set (fst (list_item buf x out)). plain c"
  by (auto simp: list_item_def and_then_def emit_def fails_def split: option.splits)

lemma plain_list_items:
  assumes "\<forall>c \<in> set separator. plain c"
    and "\<forall>p \<in> set items. \<forall>c \<in> set (fst (snd p)). plain c"
  shows "\<forall>c \<in> set buf. plain c \<Longrightarrow> \<forall>c \<in> set (fst (list_items buf separator items)). plain c"
  using assms(2)
proof (induction items arbitrary: buf)
  case Nil
  show ?case by (simp add: emit_def)
next
  case (Cons p items)
  obtain x out where p: "p = (x, out)" by (cases p)
  from Cons.prems have out: "\<forall>c \<in> set (fst out). plain c" by (simp add: p)
  have rest: "\<forall>c \<in> set (fst (list_items separator separator items)). plain c"
    by (rule Cons.IH[OF assms(1)]) (use Cons.prems in simp)
  show ?case
    unfolding p list_items.simps
    by (rule plain_and_then[OF plain_list_item[OF Cons.prems(1) out] rest])
qed

lemma plain_dict_items:
  assumes "\<forall>c \<in> set separator. plain c"
    and "\<forall>p \<in> set items. \<forall>c \<in> set (fst (snd p)). plain c"
  shows "\<forall>c \<in> set (fst (dict_items first separator items)). plain c"
  using assms(2)
proof (induction items arbitrary: first)
  case Nil
  show ?case by (simp add: emit_def)
next
  case (Cons p items)
  obtain key out where p: "p = (key, out)" by (cases p)
  from Cons.prems have out: "\<forall>c \<in> set (fst out). plain c" by (simp add: p)
  have rest: "\<forall>c \<in> set (fst (dict_items False separator items)). plain c"
    by (rule Cons.IH) (use Cons.prems in simp)
  have sep: "\<forall>c \<in> set (if first then [] else separator). plain c"
    using assms(1) by simp
  have colon: "\<forall>c \<in> set [58, 32]. plain c" by (simp add: plain_def)
  show ?case
    unfolding p dict_items.simps
    by (intro plain_and_then plain_emit sep plain_string colon out rest)
qed

lemma plain_iterencode: "\<forall>c \<in> set (fst (iterencode room level v)). plain c"
proof (induction v arbitrary: level)
  case PNone
  show ?case by (simp add: emit_def plain_def)
next
  case (PBool b)
  show ?case by (simp add: emit_def plain_def)
next
  case (PInt n)
  show ?case using plain_str_int[of n] by (simp add: emit_def fails_def repr_int_def)
next
  case (PFloat x)
  show ?case by (simp add: fails_def)
next
  case (PStr s)
  show ?case using plain_string[of s] by (simp add: emit_def)
next
  case (PList xs)
  have sep: "\<forall>c \<in> set (44 # newline_indent (Suc level)). plain c"
    using plain_newline_indent[of "Suc level"] by (simp add: plain_def)
  have buf: "\<forall>c \<in> set ([91] @ newline_indent (Suc level)). plain c"
    using plain_newline_indent[of "Suc level"] by (simp add: plain_def)
  have items: "\<forall>p \<in> set (map (\<lambda>x. (x, iterencode room (Suc level) x)) xs).
      \<forall>c \<in> set (fst (snd p)). plain c"
    using PList.IH by auto
  have close: "\<forall>c \<in> set [93]. plain c" by (simp add: plain_def)
  have "\<forall>c \<in> set (fst (and_then
      (list_items ([91] @ newline_indent (Suc level)) (44 # newline_indent (Suc level))
         (map (\<lambda>x. (x, iterencode room (Suc level) x)) xs))
      (and_then (emit (newline_indent level)) (emit [93])))). plain c"
    by (intro plain_and_then plain_emit plain_list_items[OF sep items buf]
        plain_newline_indent close)
  then show ?case by (simp add: fails_def emit_def plain_def)
next
  case (PDict kvs)
  have sep: "\<forall>c \<in> set (44 # newline_indent (Suc level)). plain c"
    using plain_newline_indent[of "Suc level"] by (simp add: plain_def)
  have items: "\<forall>p \<in> set (map (\<lambda>kv. (fst kv, iterencode room (Suc level) (snd kv))) kvs).
      \<forall>c \<in> set (fst (snd p)). plain c"
  proof
    fix p
    assume "p \<in> set (map (\<lambda>kv. (fst kv, iterencode room (Suc level) (snd kv))) kvs)"
    then obtain kv where kv: "kv \<in> set kvs" "p = (fst kv, iterencode room (Suc level) (snd kv))"
      by auto
    from PDict.IH[OF kv(1) snds_snd] show "\<forall>c \<in> set (fst (snd p)). plain c"
      by (simp add: kv(2))
  qed
  have "open": "\<forall>c \<in> set [123]. plain c" and close: "\<forall>c \<in> set [125]. plain c"
    by (simp_all add: plain_def)
  have "\<forall>c \<in> set (fst (and_then (emit [123])
      (and_then (emit (newline_indent (Suc level)))
         (and_then
            (dict_items True (44 # newline_indent (Suc level))
               (map (\<lambda>kv. (fst kv, iterencode room (Suc level) (snd kv))) kvs))
            (and_then (emit (newline_indent level)) (emit [125])))))). plain c"
    by (intro plain_and_then plain_emit plain_dict_items[OF sep items]
        plain_newline_indent "open" close)
  then show ?case by (simp add: fails_def emit_def plain_def)
qed

lemma utf8_encode_plain: "\<forall>c \<in> set t. plain c \<Longrightarrow> utf8_encode t = Some (map char_of t)"
  by (induction t) (auto simp: utf8_encode_char_def plain_def)

lemma utf8_decode_plain: "\<forall>c \<in> set t. plain c \<Longrightarrow> utf8_decode (map char_of t) = Some t"
  by (induction t) (auto simp: plain_def)

lemma universal_newlines_plain: "\<forall>c \<in> set t. plain c \<Longrightarrow> universal_newlines t = t"
  by (induction t rule: universal_newlines.induct) (auto simp: plain_def)

subsection \<open>Saving, then loading\<close>

text \<open>The text that the encoder writes for a value is decoded as that value.\<close>

lemma json_loads_dumps:
  assumes "encodable room1 0 v" and "encodable room2 0 v"
  shows "json_loads room2 (fst (json_dumps room1 v)) = Inr v"
proof -
  let ?text = "fst (iterencode room1 0 v)"
  have "take 1 ?text \<noteq> [65279]"
  proof (cases ?text)
    case Nil
    then show ?thesis by simp
  next
    case (Cons c cs)
    with plain_iterencode[of room1 0 v] have "plain c" by simp
    then have "c \<noteq> 65279" by (auto simp: plain_def)
    then show ?thesis by (simp add: Cons)
  qed
  moreover have "lex ?text = tokens_of v"
    using lex_value[OF assms(1), of "[]"] by (simp add: ends_number_simps)
  moreover have "parse_value room2 [] (tokens_of v) = Inr v"
    using parse_tokens_of[of room2 "[]" v "[]"] assms(2) by simp
  ultimately show ?thesis by (simp add: json_loads_def json_dumps_def)
qed

text \<open>A file that holds the text of a value, read by \<open>load_data\<close>.\<close>

lemma load_dumped:
  assumes "path_failure file = None"
    and "files w file = File (map char_of (fst (json_dumps room v))) m" and "readable m"
    and "encodable room 0 v" and "encodable (decoder_room w) 0 v"
  shows "load_data file w = Inr (v, w)"
proof -
  have pl: "\<forall>c \<in> set (fst (json_dumps room v)). plain c"
    unfolding json_dumps_def by (rule plain_iterencode)
  show ?thesis
    using assms(1-3) json_loads_dumps[OF assms(4,5)]
    by (simp add: load_data_def load_body_def open_read_def utf8_decode_plain[OF pl]
        universal_newlines_plain[OF pl])
qed

lemma open_write_storable:
  assumes "storable fs file"
  shows "\<exists>m. open_write fs file = Inr (fs(file := File [] m)) \<and> readable m \<and> effect m = Keeps"
proof (cases "fs file")
  case (Vacant c)
  with assms show ?thesis by (cases c) (auto simp: storable_def open_write_def)
next
  case (File bytes m)
  with assms show ?thesis by (auto simp: storable_def open_write_def)
qed (use assms in \<open>auto simp: storable_def\<close>)

lemma save_load:
  assumes "storable (files w) file"
    and "encodable (encoder_room w) 0 (PDict stock)"
    and "encodable (decoder_room w) 0 (PDict stock)"
  shows "\<exists>w1. save_data stock file w = Inr w1 \<and> stderr w1 = stderr w \<and>
           load_data file w1 = Inr (PDict stock, w1)"
proof -
  let ?text = "fst (json_dumps (encoder_room w) (PDict stock))"
  have pl: "\<forall>c \<in> set ?text. plain c"
    unfolding json_dumps_def by (rule plain_iterencode)
  have ok: "snd (json_dumps (encoder_room w) (PDict stock)) = None"
    unfolding json_dumps_def by (rule iterencode_succeeds[OF assms(2)])
  from open_write_storable[OF assms(1)] obtain m
    where m: "open_write (files w) file = Inr ((files w)(file := File [] m))"
      "readable m" "effect m = Keeps"
    by blast
  let ?w1 = "w\<lparr>files := (files w)(file := File (map char_of ?text) m)\<rparr>"
  have save: "save_data stock file w = Inr ?w1"
    by (simp add: save_data_def save_body_def m utf8_encode_plain[OF pl] write_bytes_def ok)
  have path: "path_failure file = None" using assms(1) by (simp add: storable_def)
  have held: "files ?w1 file = File (map char_of ?text) m" by simp
  have room: "encodable (decoder_room ?w1) 0 (PDict stock)"
    using assms(3) by (simp del: encodable.simps)
  have "load_data file ?w1 = Inr (PDict stock, ?w1)"
    by (rule load_dumped[OF path held m(2) assms(2) room])
  with save show ?thesis by simp
qed

subsection \<open>Texts that the decoder does not take\<close>

lemma lex_brackets: "lex (replicate n 91) = replicate n LBracket"
  by (induction n) simp_all

lemma parse_too_deep:
  "room + 1 \<le> length st + n \<Longrightarrow>
   parse_value room st (replicate (Suc n) LBracket) = Inl RecursionError"
proof (induction n arbitrary: st)
  case 0
  then show ?case by simp
next
  case (Suc n)
  from Suc.prems have "room + 1 \<le> length (InList [] # st) + n" by simp
  from Suc.IH[OF this] show ?case by simp
qed

lemma json_loads_too_deep:
  "json_loads room (replicate (Suc (Suc room)) 91) = Inl RecursionError"
proof -
  have "take 1 (replicate (Suc (Suc room)) 91) \<noteq> [65279::nat]" by simp
  with parse_too_deep[of room "[]" "Suc room"] show ?thesis
    by (simp add: json_loads_def lex_brackets del: replicate.simps parse_value.simps)
qed

lemma utf8_decode_brackets: "utf8_decode (replicate n CHR ''['') = Some (replicate n 91)"
  by (induction n) simp_all

lemma universal_newlines_brackets: "universal_newlines (replicate n 91) = replicate n 91"
  by (rule universal_newlines_plain) (simp add: plain_def)

subsection \<open>Persistence: the claims\<close>

lemma replicate4: "replicate 4 x = [x, x, x, x]"
  by (simp add: numeral_eq_Suc)


lemma small_not_too_long: "\<bar>n\<bar> < 10 \<Longrightarrow> \<not> too_long n"
  using limit_ge_10 by (simp add: too_long_iff)

lemma path_inventory_json: "path_failure (map of_char ''inventory.json'') = None"
  by (simp add: path_failure_def unencodable_def)

text \<open>
  C2, as the spec states it, fails. The round trip depends on the inventory:
  \<^item> a key that holds a high surrogate followed by a low surrogate is written as two
    \<open>\uXXXX\<close> escapes, which the decoder reads back as the one code point of the pair,
    so that the loaded key differs from the saved one;
  \<^item> a value of more than 4300 digits makes the encoder raise \<open>ValueError\<close>, which
    \<open>save_data\<close> does not catch.

  And it depends on the path:
  \<^item> where no file can be created, \<open>save_data\<close> catches the error and prints a message,
    and \<open>load_data\<close> then finds no file and returns the empty mapping;
  \<^item> a device that discards what is written to it reads as the empty text, which is
    not JSON, and \<open>load_data\<close> returns the empty mapping;
  \<^item> a device without room raises an error that \<open>save_data\<close> catches, and \<open>load_data\<close>
    again returns the empty mapping;
  \<^item> a file that is created without the permission to read it makes \<open>load_data\<close> raise
    \<open>PermissionError\<close>;
  \<^item> a name with a NUL character makes \<open>save_data\<close> raise \<open>ValueError\<close>.
\<close>

theorem save_then_load_counterexample:
  "(\<forall>room.
      save_then_load [([55357, 56832], PInt 1)] (map of_char ''inventory.json'')
        (fresh_world empty_disk room) = Inr (PDict [([128512], PInt 1)]) \<and>
      save_then_load [(map of_char ''a'', PInt (10 ^ int_max_str_digits))]
        (map of_char ''inventory.json'') (fresh_world empty_disk room) = Inl ValueError \<and>
      save_then_load [(map of_char ''a'', PInt 1)] (map of_char ''inventory.json'')
        (fresh_world (\<lambda>file. Vacant None) room) = Inr (PDict []) \<and>
      save_then_load [(map of_char ''a'', PInt 1)] (map of_char ''inventory.json'')
        (fresh_world
           (\<lambda>file. File [] \<lparr>readable = True, writable = True, effect = Discards\<rparr>) room) =
        Inr (PDict []) \<and>
      save_then_load [(map of_char ''a'', PInt 1)] (map of_char ''inventory.json'')
        (fresh_world
           (\<lambda>file. File [] \<lparr>readable = True, writable = True, effect = Fails 0\<rparr>) room) =
        Inr (PDict []) \<and>
      save_then_load [(map of_char ''a'', PInt 1)] (map of_char ''inventory.json'')
        (fresh_world
           (\<lambda>file. Vacant (Some \<lparr>readable = False, writable = True, effect = Keeps\<rparr>)) room) =
        Inl PermissionError \<and>
      save_then_load [(map of_char ''a'', PInt 1)] [97, 0, 98] (fresh_world empty_disk room) =
        Inl ValueError)"
proof
  fix room
  let ?f = "map of_char ''inventory.json'' :: pystr"
  have one: "\<not> too_long 1" by (rule small_not_too_long) simp
  have big: "too_long (10 ^ int_max_str_digits)" by (simp add: too_long_iff)
  have d1: "json_dumps room (PDict [([55357, 56832], PInt 1)]) =
      ([123, 10, 32, 32, 32, 32, 34, 92, 117, 100, 56, 51, 100, 92, 117, 100, 101, 48, 48,
        34, 58, 32, 49, 10, 125], None)"
    by (simp add: json_dumps_def and_then_def emit_def encode_basestring_ascii_def
        escape_char_def escape_u_def hex4_def hex_digit_def newline_indent_def repr_int_def one
        str_int_def dec_digits.simps replicate4)
  have l1: "json_loads room [123, 10, 32, 32, 32, 32, 34, 92, 117, 100, 56, 51, 100, 92, 117,
      100, 101, 48, 48, 34, 58, 32, 49, 10, 125] = Inr (PDict [([128512], PInt 1)])"
    by (simp add: json_loads_def prepend_def hex_value_def match_number_def is_digit_def
        digits_value_def starts_with_def int_max_str_digits_def)
  have a: "save_then_load [([55357, 56832], PInt 1)] ?f (fresh_world empty_disk room) =
      Inr (PDict [([128512], PInt 1)])"
    by (simp add: save_then_load_def save_data_def save_body_def open_write_def
        path_failure_def unencodable_def fresh_world_def empty_disk_def read_write_def write_bytes_def d1
        utf8_encode_char_def load_data_def load_body_def open_read_def l1)
  have d2: "json_dumps room (PDict [([97], PInt (10 ^ int_max_str_digits))]) =
      ([123, 10, 32, 32, 32, 32, 34, 97, 34, 58, 32], Some ValueError)"
    by (simp add: json_dumps_def and_then_def emit_def fails_def encode_basestring_ascii_def
        escape_char_def newline_indent_def repr_int_def big replicate4)
  have b: "save_then_load [(map of_char ''a'', PInt (10 ^ int_max_str_digits))] ?f
      (fresh_world empty_disk room) = Inl ValueError"
    by (simp add: save_then_load_def save_data_def save_body_def open_write_def
        path_failure_def unencodable_def fresh_world_def empty_disk_def read_write_def write_bytes_def d2
        utf8_encode_char_def is_IOError_def)
  have d3: "json_dumps room (PDict [([97], PInt 1)]) =
      ([123, 10, 32, 32, 32, 32, 34, 97, 34, 58, 32, 49, 10, 125], None)"
    by (simp add: json_dumps_def and_then_def emit_def encode_basestring_ascii_def
        escape_char_def newline_indent_def repr_int_def one str_int_def dec_digits.simps
        replicate4)
  have empty: "json_loads room [] = Inl JSONDecodeError"
    by (simp add: json_loads_def)
  have c: "save_then_load [(map of_char ''a'', PInt 1)] ?f
      (fresh_world (\<lambda>file. Vacant None) room) = Inr (PDict [])"
    by (simp add: save_then_load_def save_data_def save_body_def open_write_def
        path_failure_def unencodable_def fresh_world_def is_IOError_def load_data_def load_body_def
        open_read_def)
  have d: "save_then_load [(map of_char ''a'', PInt 1)] ?f
      (fresh_world (\<lambda>file. File [] \<lparr>readable = True, writable = True, effect = Discards\<rparr>)
         room) = Inr (PDict [])"
    by (simp add: save_then_load_def save_data_def save_body_def open_write_def
        path_failure_def unencodable_def fresh_world_def write_bytes_def d3 utf8_encode_char_def
        load_data_def load_body_def open_read_def empty)
  have e: "save_then_load [(map of_char ''a'', PInt 1)] ?f
      (fresh_world (\<lambda>file. File [] \<lparr>readable = True, writable = True, effect = Fails 0\<rparr>)
         room) = Inr (PDict [])"
    by (simp add: save_then_load_def save_data_def save_body_def open_write_def
        path_failure_def unencodable_def fresh_world_def write_bytes_def d3 utf8_encode_char_def
        is_IOError_def load_data_def load_body_def open_read_def empty)
  have f: "save_then_load [(map of_char ''a'', PInt 1)] ?f
      (fresh_world (\<lambda>file. Vacant (Some \<lparr>readable = False, writable = True, effect = Keeps\<rparr>))
         room) = Inl PermissionError"
    by (simp add: save_then_load_def save_data_def save_body_def open_write_def
        path_failure_def unencodable_def fresh_world_def write_bytes_def d3 utf8_encode_char_def
        load_data_def load_body_def open_read_def)
  have g: "save_then_load [(map of_char ''a'', PInt 1)] [97, 0, 98]
      (fresh_world empty_disk room) = Inl ValueError"
    by (simp add: save_then_load_def save_data_def save_body_def open_write_def
        path_failure_def unencodable_def fresh_world_def is_IOError_def)
  from a b c d e f g
  show "save_then_load [([55357, 56832], PInt 1)] ?f (fresh_world empty_disk room) =
      Inr (PDict [([128512], PInt 1)]) \<and>
    save_then_load [(map of_char ''a'', PInt (10 ^ int_max_str_digits))] ?f
      (fresh_world empty_disk room) = Inl ValueError \<and>
    save_then_load [(map of_char ''a'', PInt 1)] ?f
      (fresh_world (\<lambda>file. Vacant None) room) = Inr (PDict []) \<and>
    save_then_load [(map of_char ''a'', PInt 1)] ?f
      (fresh_world (\<lambda>file. File [] \<lparr>readable = True, writable = True, effect = Discards\<rparr>)
         room) = Inr (PDict []) \<and>
    save_then_load [(map of_char ''a'', PInt 1)] ?f
      (fresh_world (\<lambda>file. File [] \<lparr>readable = True, writable = True, effect = Fails 0\<rparr>)
         room) = Inr (PDict []) \<and>
    save_then_load [(map of_char ''a'', PInt 1)] ?f
      (fresh_world (\<lambda>file. Vacant (Some \<lparr>readable = False, writable = True, effect = Keeps\<rparr>))
         room) = Inl PermissionError \<and>
    save_then_load [(map of_char ''a'', PInt 1)] [97, 0, 98] (fresh_world empty_disk room) =
      Inl ValueError"
    by (intro conjI)
qed

text \<open>
  C2, amended. Let the inventory hold each key once, as a \<open>dict\<close> does, let no key
  have a high surrogate directly before a low surrogate, and let every value be a
  positive integer of at most 4300 digits. Let the path be one at which the text of a
  saved inventory is kept and can be read back. Then \<open>save_data\<close> returns normally and
  prints nothing, and the \<open>load_data\<close> that follows returns a mapping equal to the
  inventory, with the items in the same order.
\<close>

theorem save_then_load_round_trip:
  assumes "distinct (map fst stock)"
    and "\<forall>(k, v) \<in> set stock.
           faithful k \<and> (\<exists>n. v = PInt n \<and> 0 < n \<and> n < 10 ^ int_max_str_digits)"
    and "storable (files w) file"
  shows "save_then_load stock file w = Inr (PDict stock) \<and>
         (\<exists>w1. save_data stock file w = Inr w1 \<and> stderr w1 = stderr w)"
proof -
  have enc: "encodable room 0 (PDict stock)" for room
  proof -
    have "faithful (fst kv) \<and> encodable room (Suc 0) (snd kv)" if "kv \<in> set stock" for kv
    proof -
      obtain k v where kv: "kv = (k, v)" by (cases kv)
      from bspec[OF assms(2) that] obtain n where "faithful k" "v = PInt n" "0 < n"
        "n < 10 ^ int_max_str_digits"
        by (auto simp: kv)
      then show ?thesis by (simp add: kv too_long_iff)
    qed
    with assms(1) show ?thesis by (simp add: list_all_iff)
  qed
  from save_load[OF assms(3) enc enc] show ?thesis
    by (auto simp: save_then_load_def)
qed

theorem save_then_load_round_trip_witness:
  "distinct (map fst ([(map of_char ''apple'', PInt 7), ([233, 55357], PInt 15)] :: dict)) \<and>
   faithful (map of_char ''apple'') \<and> faithful [233, 55357] \<and>
   (7::int) < 10 ^ int_max_str_digits \<and> (15::int) < 10 ^ int_max_str_digits \<and>
   storable (files (fresh_world empty_disk 0)) (map of_char ''inventory.json'') \<and>
   save_then_load [(map of_char ''apple'', PInt 7), ([233, 55357], PInt 15)]
     (map of_char ''inventory.json'') (fresh_world empty_disk 0) =
     Inr (PDict [(map of_char ''apple'', PInt 7), ([233, 55357], PInt 15)])"
proof -
  let ?stock = "[(map of_char ''apple'', PInt 7), ([233, 55357], PInt 15)] :: dict"
  have h1: "distinct (map fst ?stock)"
    by simp
  have f: "faithful (map of_char ''apple'')" "faithful [233, 55357]"
    by (simp_all add: faithful_def high_surrogate_def low_surrogate_def)
  have n: "(7::int) < 10 ^ int_max_str_digits" "(15::int) < 10 ^ int_max_str_digits"
  proof -
    have "(10::int) ^ 2 \<le> 10 ^ int_max_str_digits"
      by (intro power_increasing) (simp_all add: int_max_str_digits_def)
    then show "(7::int) < 10 ^ int_max_str_digits" "(15::int) < 10 ^ int_max_str_digits"
      by simp_all
  qed
  have h2: "\<forall>(k, v) \<in> set ?stock.
      faithful k \<and> (\<exists>n. v = PInt n \<and> 0 < n \<and> n < 10 ^ int_max_str_digits)"
    using f n by simp
  have h3: "storable (files (fresh_world empty_disk 0)) (map of_char ''inventory.json'')"
    by (simp add: storable_def path_failure_def unencodable_def fresh_world_def empty_disk_def
        read_write_def)
  from save_then_load_round_trip[OF h1 h2 h3] h1 f n h3 show ?thesis by blast
qed

text \<open>
  C6, as the spec states it, fails in both of its cases. A file whose bytes are not
  UTF-8 exists and does not hold valid JSON, but reading it raises
  \<open>UnicodeDecodeError\<close>, which neither handler of \<open>load_data\<close> catches. The same holds
  for a text that opens more lists than the stack has room for, whatever that room is:
  it is not valid JSON, and the decoder raises \<open>RecursionError\<close>. And when the path
  leads through something that is not a directory, there is no file at the path, but
  the error is \<open>NotADirectoryError\<close>, not \<open>FileNotFoundError\<close>.
\<close>

theorem load_data_counterexample:
  "(\<forall>room.
      utf8_decode [CHR 0xFF] = None \<and>
      load_data (map of_char ''inventory.json'')
        (fresh_world (disk_with (map of_char ''inventory.json'') [CHR 0xFF]) room) =
        Inl UnicodeDecodeError \<and>
      load_data (map of_char ''inventory.json'')
        (fresh_world
           (disk_with (map of_char ''inventory.json'') (replicate (room + 2) CHR ''['')) room) =
        Inl RecursionError \<and>
      load_data (map of_char ''inventory.json'')
        (fresh_world (\<lambda>file. Unreachable ENOTDIR) room) = Inl NotADirectoryError)"
  by (simp add: load_data_def load_body_def open_read_def path_failure_def unencodable_def fresh_world_def
      disk_with_def read_write_def utf8_decode_brackets universal_newlines_brackets
      json_loads_too_deep del: replicate.simps replicate_Suc)

text \<open>
  C6, amended. Let the path have a name that the operating system accepts. When the
  directory is there but no file of that name, or a component of the path is missing,
  \<open>load_data\<close> returns the empty mapping without raising and prints the informational
  message. When a readable file is there whose bytes are UTF-8 text that the JSON
  decoder refuses with \<open>JSONDecodeError\<close>, \<open>load_data\<close> returns the empty mapping
  without raising and prints the error message. In both cases every file is as it was.
  When a readable file is there whose bytes are not UTF-8, \<open>load_data\<close> raises
  \<open>UnicodeDecodeError\<close>.
\<close>

theorem load_data_fallbacks:
  assumes "path_failure file = None"
  shows "((\<exists>c. files w file = Vacant c) \<or> files w file = Unreachable ENOENT \<longrightarrow>
            load_data file w =
              Inr (PDict [], w\<lparr>stderr := stderr w @ [FileNotFoundInfo file]\<rparr>) \<and>
            severity (FileNotFoundInfo file) = Info) \<and>
         (\<forall>bytes m body.
            files w file = File bytes m \<and> readable m \<and> utf8_decode bytes = Some body \<and>
            json_loads (decoder_room w) (universal_newlines body) = Inl JSONDecodeError \<longrightarrow>
            load_data file w = Inr (PDict [], w\<lparr>stderr := stderr w @ [DecodeFailure file]\<rparr>) \<and>
            severity (DecodeFailure file) = Error) \<and>
         (\<forall>bytes m.
            files w file = File bytes m \<and> readable m \<and> utf8_decode bytes = None \<longrightarrow>
            load_data file w = Inl UnicodeDecodeError)"
  using assms by (auto simp: load_data_def load_body_def open_read_def)

theorem load_data_fallbacks_witness:
  \<open>path_failure (map of_char ''inventory.json'') = None \<and>
   load_data (map of_char ''inventory.json'') (fresh_world empty_disk 0) =
     Inr (PDict [],
          (fresh_world empty_disk 0)
            \<lparr>stderr := [FileNotFoundInfo (map of_char ''inventory.json'')]\<rparr>) \<and>
   utf8_decode ''{"apple": 3,'' = Some (map of_char ''{"apple": 3,'') \<and>
   json_loads 0 (map of_char ''{"apple": 3,'') = Inl JSONDecodeError \<and>
   load_data (map of_char ''inventory.json'')
     (fresh_world (disk_with (map of_char ''inventory.json'') ''{"apple": 3,'') 0) =
     Inr (PDict [],
          (fresh_world (disk_with (map of_char ''inventory.json'') ''{"apple": 3,'') 0)
            \<lparr>stderr := [DecodeFailure (map of_char ''inventory.json'')]\<rparr>) \<and>
   utf8_decode [CHR 0xC3, CHR 0x28] = None \<and>
   load_data (map of_char ''inventory.json'')
     (fresh_world (disk_with (map of_char ''inventory.json'') [CHR 0xC3, CHR 0x28]) 0) =
     Inl UnicodeDecodeError\<close>
proof -
  let ?f = "map of_char ''inventory.json'' :: pystr"
  let ?b = \<open>''{"apple": 3,''\<close>
  let ?w0 = "fresh_world empty_disk 0"
  let ?w1 = "fresh_world (disk_with ?f ?b) 0"
  let ?w2 = "fresh_world (disk_with ?f [CHR 0xC3, CHR 0x28]) 0"
  have v: "files ?w0 ?f = Vacant (Some read_write)"
    by (simp add: fresh_world_def empty_disk_def)
  have r1: "files ?w1 ?f = File ?b read_write" "readable read_write"
    by (simp_all add: fresh_world_def disk_with_def read_write_def)
  have r2: "files ?w2 ?f = File [CHR 0xC3, CHR 0x28] read_write"
    by (simp add: fresh_world_def disk_with_def)
  have u: "utf8_decode ?b = Some (map of_char ?b)" by simp
  have one: "int_max_str_digits \<noteq> 0" by (simp add: int_max_str_digits_def)
  have j: "json_loads 0 (map of_char ?b) = Inl JSONDecodeError"
    by (simp add: json_loads_def prepend_def starts_with_def match_number_def is_digit_def
        digits_value_def one)
  have j': "json_loads (decoder_room ?w1) (universal_newlines (map of_char ?b)) =
      Inl JSONDecodeError"
    using j by (simp add: fresh_world_def)
  have n: "utf8_decode [CHR 0xC3, CHR 0x28] = None"
    by (simp add: continuation_def)
  note t = load_data_fallbacks[OF path_inventory_json]
  from t[of ?w0] v
  have a: "load_data ?f ?w0 = Inr (PDict [], ?w0\<lparr>stderr := stderr ?w0 @ [FileNotFoundInfo ?f]\<rparr>)"
    by blast
  from t[of ?w1] r1 u j'
  have b: "load_data ?f ?w1 = Inr (PDict [], ?w1\<lparr>stderr := stderr ?w1 @ [DecodeFailure ?f]\<rparr>)"
    by blast
  from t[of ?w2] r2 r1(2) n
  have c: "load_data ?f ?w2 = Inl UnicodeDecodeError"
    by blast
  have s: "stderr ?w0 = []" "stderr ?w1 = []" by (simp_all add: fresh_world_def)
  from a b c u j n show ?thesis
    unfolding s by (simp add: path_failure_def unencodable_def)
qed




text \<open>
  C9. There are files that hold valid JSON which is not an object, and \<open>load_data\<close>
  returns their value as it is, without a message: a file with the text \<open>[1, 2]\<close>
  loads as the list of 1 and 2, and a file with the text \<open>7\<close> loads as the integer 7,
  whatever room the stack has. Neither result is a mapping.
\<close>

theorem load_data_non_object:
  "load_data (map of_char ''inventory.json'')
     \<lparr>files = disk_with (map of_char ''inventory.json'') ''[1, 2]'', stderr = [],
      encoder_room = room1, decoder_room = room2\<rparr> =
     Inr (PList [PInt 1, PInt 2],
          \<lparr>files = disk_with (map of_char ''inventory.json'') ''[1, 2]'', stderr = [],
           encoder_room = room1, decoder_room = room2\<rparr>) \<and>
   load_data (map of_char ''inventory.json'')
     \<lparr>files = disk_with (map of_char ''inventory.json'') ''7'', stderr = [],
      encoder_room = room1, decoder_room = room2\<rparr> =
     Inr (PInt 7,
          \<lparr>files = disk_with (map of_char ''inventory.json'') ''7'', stderr = [],
           encoder_room = room1, decoder_room = room2\<rparr>)"
proof -
  have one: "int_max_str_digits \<noteq> 0" by (simp add: int_max_str_digits_def)
  show ?thesis
    by (simp add: load_data_def load_body_def open_read_def path_failure_def unencodable_def disk_with_def
        read_write_def json_loads_def prepend_def starts_with_def match_number_def is_digit_def
        digits_value_def one)
qed

end
